theory Spec2Isabelle
  imports Main "HOL-Library.Word"
begin

section \<open>Strings and the two URL patterns of \<^verbatim>\<open>App.tsx\<close>\<close>

text \<open>
  A JavaScript string is a sequence of 16-bit code units. Source literals are ASCII and
  are written with \<open>lit\<close>.
\<close>

type_synonym jsstring = "16 word list"

definition lit :: "string \<Rightarrow> jsstring" where
  "lit s = map of_char s"

text \<open>
  The characters that \<^verbatim>\<open>.\<close> refuses and at which \<^verbatim>\<open>^\<close> and \<^verbatim>\<open>$\<close> split lines
  under the \<^verbatim>\<open>m\<close> flag: LF, CR, U+2028 and U+2029.
\<close>

definition isLineTerminator :: "16 word \<Rightarrow> bool" where
  "isLineTerminator c = (c = 0x000A \<or> c = 0x000D \<or> c = 0x2028 \<or> c = 0x2029)"

text \<open>The character class \<^verbatim>\<open>[a-zA-Z0-9-]\<close>.\<close>

definition idChar :: "16 word \<Rightarrow> bool" where
  "idChar c = ((of_char CHR ''a'' \<le> c \<and> c \<le> of_char CHR ''z'') \<or>
               (of_char CHR ''A'' \<le> c \<and> c \<le> of_char CHR ''Z'') \<or>
               (of_char CHR ''0'' \<le> c \<and> c \<le> of_char CHR ''9'') \<or>
               c = of_char CHR ''-'')"

text \<open>Matching a literal piece of a pattern at the head of the remaining input.\<close>

definition stripPrefix :: "jsstring \<Rightarrow> jsstring \<Rightarrow> jsstring option" where
  "stripPrefix p s = (if take (length p) s = p then Some (drop (length p) s) else None)"

text \<open>
  \<^verbatim>\<open>const trackUrlRegex = /^(https:\/\/open\.spotify\.com\/(episode|track)\/[a-zA-Z0-9-]+).*$/\<close>

  The pattern has no flags: \<^verbatim>\<open>exec\<close> always starts at index 0, \<^verbatim>\<open>^\<close> and \<^verbatim>\<open>$\<close> are the
  two ends of the input, and the object keeps no state between calls. The greedy
  \<^verbatim>\<open>[a-zA-Z0-9-]+\<close> takes the longest run of identifier characters; giving characters
  back to \<^verbatim>\<open>.*\<close> cannot help, since \<^verbatim>\<open>.*$\<close> fails only on a line terminator further
  right. The result is capture group 1 (\<^verbatim>\<open>match[1]\<close>), \<open>None\<close> for \<^verbatim>\<open>null\<close>.
\<close>

definition trackUrlRegex_exec :: "jsstring \<Rightarrow> jsstring option" where
  "trackUrlRegex_exec s =
     (case stripPrefix (lit ''https://open.spotify.com/'') s of
        None \<Rightarrow> None
      | Some s1 \<Rightarrow>
         (case (case stripPrefix (lit ''episode'') s1 of
                  Some r \<Rightarrow> Some r
                | None \<Rightarrow> stripPrefix (lit ''track'') s1) of
            None \<Rightarrow> None
          | Some s2 \<Rightarrow>
             (case stripPrefix (lit ''/'') s2 of
                None \<Rightarrow> None
              | Some s3 \<Rightarrow>
                 (let ident = takeWhile idChar s3; rest = dropWhile idChar s3
                  in if ident \<noteq> [] \<and> list_all (\<lambda>c. \<not> isLineTerminator c) rest
                     then Some (take (length s - length rest) s)
                     else None))))"

text \<open>
  \<^verbatim>\<open>const playlistRegex = /^https:\/\/open\.spotify\.com\/playlist\/([a-zA-Z0-9-]+).*$/gm\<close>

  With the \<^verbatim>\<open>m\<close> flag \<^verbatim>\<open>^\<close> holds at index 0 and after every line terminator, and
  \<^verbatim>\<open>$\<close> holds at the end of the input and before every line terminator, so after the
  greedy \<^verbatim>\<open>.*\<close> it always holds. \<open>playlistRegex_matchAt s p\<close> is one attempt at index
  \<open>p\<close>: capture group 1 and the index at which the match ends.
\<close>

definition atLineStart :: "jsstring \<Rightarrow> nat \<Rightarrow> bool" where
  "atLineStart s p = (p = 0 \<or> isLineTerminator (s ! (p - 1)))"

definition playlistRegex_matchAt :: "jsstring \<Rightarrow> nat \<Rightarrow> (jsstring \<times> nat) option" where
  "playlistRegex_matchAt s p =
     (if \<not> atLineStart s p then None
      else case stripPrefix (lit ''https://open.spotify.com/playlist/'') (drop p s) of
        None \<Rightarrow> None
      | Some s1 \<Rightarrow>
         (let ident = takeWhile idChar s1;
              rest = dropWhile idChar s1;
              tail = takeWhile (\<lambda>c. \<not> isLineTerminator c) rest
          in if ident = [] then None
             else Some (ident, length s - length rest + length tail)))"

text \<open>
  The search of \<^verbatim>\<open>RegExp.prototype.exec\<close>: attempts at \<open>i\<close>, \<open>i + 1\<close>, ... until one
  succeeds or the index passes the end of the input.
\<close>

function playlistRegex_search :: "jsstring \<Rightarrow> nat \<Rightarrow> (jsstring \<times> nat) option" where
  "playlistRegex_search s i =
     (if length s < i then None
      else case playlistRegex_matchAt s i of
        Some r \<Rightarrow> Some r
      | None \<Rightarrow> playlistRegex_search s (Suc i))"
  by pat_completeness auto
termination
  by (relation "measure (\<lambda>(s, i). Suc (length s) - i)") auto

declare playlistRegex_search.simps [simp del]

text \<open>
  With the \<^verbatim>\<open>g\<close> flag the regular expression object carries \<^verbatim>\<open>lastIndex\<close>: \<^verbatim>\<open>exec\<close>
  starts its search there, stores the end of the match on success and 0 on failure.
  \<^verbatim>\<open>playlistRegex\<close> is a constant of the module, so the index lives as long as the page.
  The result is \<^verbatim>\<open>match[1]\<close> (or \<open>None\<close> for \<^verbatim>\<open>null\<close>) and the new \<^verbatim>\<open>lastIndex\<close>.
\<close>

definition playlistRegex_exec :: "nat \<Rightarrow> jsstring \<Rightarrow> jsstring option \<times> nat" where
  "playlistRegex_exec lastIndex s =
     (case playlistRegex_search s lastIndex of
        None \<Rightarrow> (None, 0)
      | Some (ident, e) \<Rightarrow> (Some ident, e))"

section \<open>Data\<close>

text \<open>
  The part of \<^verbatim>\<open>PlaylistedTrack<Track>\<close> that the field projection of the request asks
  for: \<^verbatim>\<open>items(track(id,name,artists(name),album(release_date),type,external_urls),added_at)\<close>.
\<close>

record Artist =
  artist_name :: jsstring

record Album =
  release_date :: jsstring

record ExternalUrls =
  spotify :: jsstring

record Track =
  track_id :: jsstring
  track_name :: jsstring
  artists :: "Artist list"
  album :: Album
  track_type :: jsstring
  external_urls :: ExternalUrls

record PlaylistedTrack =
  added_at :: jsstring
  track :: Track

text \<open>
  \<^verbatim>\<open>type OverrideItem = { link: string; date: string; artist: string; name: string }\<close>

  The items come out of \<^verbatim>\<open>JSON.parse\<close>, where a field may be missing: \<open>None\<close> is
  \<^verbatim>\<open>undefined\<close>. A field is truthy when it is present and not the empty string.
\<close>

record OverrideItem =
  link :: jsstring
  date :: "jsstring option"
  artist :: "jsstring option"
  name :: "jsstring option"

definition truthy :: "jsstring option \<Rightarrow> bool" where
  "truthy v = (case v of None \<Rightarrow> False | Some s \<Rightarrow> s \<noteq> [])"

text \<open>
  \<^verbatim>\<open>type Overrides = Record<string, OverrideItem>\<close>: an object used as a dictionary,
  modelled by its own properties in the order they were created. Assigning to a key
  that exists replaces the value in place; assigning to a new key adds it at the end.
  Only the properties that the loop below creates are modelled: what the object inherits
  from \<^verbatim>\<open>Object.prototype\<close> (keys such as \<^verbatim>\<open>constructor\<close>) is left out, as the declared
  type does.
\<close>

type_synonym Overrides = "(jsstring \<times> OverrideItem) list"

fun setProperty :: "(jsstring \<times> 'v) list \<Rightarrow> jsstring \<Rightarrow> 'v \<Rightarrow> (jsstring \<times> 'v) list" where
  "setProperty [] k v = [(k, v)]"
| "setProperty ((k', v') # ps) k v =
     (if k' = k then (k', v) # ps else (k', v') # setProperty ps k v)"

definition getProperty :: "(jsstring \<times> 'v) list \<Rightarrow> jsstring \<Rightarrow> 'v option" where
  "getProperty obj k = map_of obj k"

text \<open>The page of results of \<^verbatim>\<open>sdk.playlists.getPlaylistItems\<close> and its request.\<close>

record Page =
  page_offset :: nat
  page_limit :: nat
  page_next :: "jsstring option"
  page_items :: "PlaylistedTrack list"

record Request =
  req_playlist_id :: jsstring
  req_market :: jsstring
  req_fields :: jsstring
  req_limit :: nat
  req_offset :: nat

datatype error = RequestFailed | RangeError

type_synonym sdk = "Request \<Rightarrow> error + Page"

section \<open>\<^verbatim>\<open>arrayChunks\<close>\<close>

text \<open>
  \<^verbatim>\<open>
  const arrayChunks = (array, chunkSize) => Array(Math.ceil(array.length / chunkSize))
      .fill(null)
      .map((_, index) => index * chunkSize)
      .map(begin => array.slice(begin, begin + chunkSize));
  \<close>
  With \<^verbatim>\<open>chunkSize\<close> 0 the quotient is \<^verbatim>\<open>Infinity\<close> or \<^verbatim>\<open>NaN\<close> and \<^verbatim>\<open>Array\<close> throws a
  \<^verbatim>\<open>RangeError\<close>.
\<close>

definition slice :: "'a list \<Rightarrow> nat \<Rightarrow> nat \<Rightarrow> 'a list" where
  "slice array begin end' = take (end' - begin) (drop begin array)"

definition arrayChunks :: "'a list \<Rightarrow> nat \<Rightarrow> error + 'a list list" where
  "arrayChunks array chunkSize =
     (if chunkSize = 0 then Inl RangeError
      else Inr (map (\<lambda>begin. slice array begin (begin + chunkSize))
                 (map (\<lambda>index. index * chunkSize)
                   [0 ..< (length array + chunkSize - 1) div chunkSize])))"

section \<open>The state of \<^verbatim>\<open>App\<close> and its handlers\<close>

text \<open>
  The \<^verbatim>\<open>useState\<close> cells and the \<^verbatim>\<open>useRef\<close> cell of \<^verbatim>\<open>App\<close>, and \<^verbatim>\<open>lastIndex\<close> of the
  module's \<^verbatim>\<open>playlistRegex\<close>. \<open>overrideJsonRef\<close> is \<^verbatim>\<open>overrideJsonRef.current\<close>:
  \<open>None\<close> is \<^verbatim>\<open>null\<close>, \<open>Some v\<close> is \<^verbatim>\<open>{value: v}\<close>. The source casts the value to
  \<^verbatim>\<open>OverrideItem[]\<close> without a check, and the model takes the cast at its word. The
  first value, the empty string, has no enumerable property: it is the empty list.
\<close>

record AppState =
  url :: jsstring
  playlistItems :: "PlaylistedTrack list option"
  name_state :: jsstring
  codeType :: jsstring
  showAdvancedOptions :: bool
  overrideJsonErrorMessage :: jsstring
  overrideJsonRef :: "OverrideItem list option"
  overrideText :: jsstring
  playlistRegex_lastIndex :: nat

definition initialState :: AppState where
  "initialState =
     \<lparr>url = [], playlistItems = None, name_state = [], codeType = lit ''qr'',
      showAdvancedOptions = False, overrideJsonErrorMessage = [],
      overrideJsonRef = Some [], overrideText = [], playlistRegex_lastIndex = 0\<rparr>"

text \<open>
  \<^verbatim>\<open>
  const handleOverrideChange = (event) => {
      const input = event.target.value;
      try {
          if (overrideJsonRef.current !== null) {
              overrideJsonRef.current.value = JSON.parse(input);
          }
          setOverrideJsonErrorMessage('');
      } catch (e) {
          setOverrideJsonErrorMessage('Invalid JSON!');
      }
      setOverrideText(input);
  };
  \<close>
  \<^verbatim>\<open>JSON.parse\<close> is the first argument: \<open>None\<close> when it throws.
\<close>

definition handleOverrideChange ::
  "(jsstring \<Rightarrow> OverrideItem list option) \<Rightarrow> AppState \<Rightarrow> jsstring \<Rightarrow> AppState" where
  "handleOverrideChange JSON_parse st input =
     (case overrideJsonRef st of
        None \<Rightarrow> st\<lparr>overrideJsonErrorMessage := [], overrideText := input\<rparr>
      | Some old \<Rightarrow>
         (case JSON_parse input of
            None \<Rightarrow>
              st\<lparr>overrideJsonErrorMessage := lit ''Invalid JSON!'', overrideText := input\<rparr>
          | Some v \<Rightarrow>
              st\<lparr>overrideJsonRef := Some v, overrideJsonErrorMessage := [],
                 overrideText := input\<rparr>))"

definition setUrl :: "AppState \<Rightarrow> jsstring \<Rightarrow> AppState" where
  "setUrl st v = st\<lparr>url := v\<rparr>"

definition setCardName :: "AppState \<Rightarrow> jsstring \<Rightarrow> AppState" where
  "setCardName st v = st\<lparr>name_state := v\<rparr>"

definition setCodeType :: "AppState \<Rightarrow> jsstring \<Rightarrow> AppState" where
  "setCodeType st v = st\<lparr>codeType := v\<rparr>"

definition toggleAdvancedOptions :: "AppState \<Rightarrow> AppState" where
  "toggleAdvancedOptions st = st\<lparr>showAdvancedOptions := \<not> showAdvancedOptions st\<rparr>"

section \<open>\<^verbatim>\<open>getPlaylist\<close>\<close>

text \<open>
  The request of one iteration:
  \<^verbatim>\<open>sdk.playlists.getPlaylistItems(match[1], 'DE', '...', limit, offset)\<close> with
  \<^verbatim>\<open>const limit = 50\<close>.
\<close>

definition pageRequest :: "jsstring \<Rightarrow> nat \<Rightarrow> Request" where
  "pageRequest playlist offset =
     \<lparr>req_playlist_id = playlist, req_market = lit ''DE'',
      req_fields = lit ''offset,limit,next,items(track(id,name,artists(name),album(release_date),type,external_urls),added_at)'',
      req_limit = 50, req_offset = offset\<rparr>"

text \<open>
  \<^verbatim>\<open>
  do {
      result = await sdk.playlists.getPlaylistItems(match[1], 'DE', '...', limit, offset);
      items.push(...result.items);
      offset += result.limit;
  } while (result.next !== null);
  \<close>
  Nothing bounds the loop, so its result is optional: \<open>None\<close> when it runs forever.
  A request that fails rejects the whole operation. The last argument collects the
  requests issued, in order.
\<close>

partial_function (option) fetchPages ::
  "sdk \<Rightarrow> jsstring \<Rightarrow> PlaylistedTrack list \<Rightarrow> nat \<Rightarrow> Request list
     \<Rightarrow> ((error + PlaylistedTrack list) \<times> Request list) option" where
  "fetchPages api playlist items offset issued =
     (case api (pageRequest playlist offset) of
        Inl e \<Rightarrow> Some (Inl e, issued @ [pageRequest playlist offset])
      | Inr result \<Rightarrow>
          if page_next result \<noteq> None
          then fetchPages api playlist (items @ page_items result)
                 (offset + page_limit result) (issued @ [pageRequest playlist offset])
          else Some (Inr (items @ page_items result), issued @ [pageRequest playlist offset]))"

text \<open>
  \<^verbatim>\<open>
  for (var index in overrideJson) {
      let item = overrideJson[index];
      let match = trackUrlRegex.exec(item.link);
      if (!match) { overrides[item.link] = item; } else { overrides[match[1]] = item; }
  }
  \<close>
\<close>

definition overrideKey :: "OverrideItem \<Rightarrow> jsstring" where
  "overrideKey item =
     (case trackUrlRegex_exec (link item) of None \<Rightarrow> link item | Some m1 \<Rightarrow> m1)"

definition buildOverrides :: "OverrideItem list \<Rightarrow> Overrides" where
  "buildOverrides overrideJson =
     foldl (\<lambda>overrides item. setProperty overrides (overrideKey item) item) [] overrideJson"

text \<open>
  \<^verbatim>\<open>
  for (var index in items) {
      let track = items[index].track;
      let override = overrides[track.external_urls.spotify]
      if (override) {
          if (override.name) items[index].track.name = override.name;
          if (override.artist) items[index].track.artists = [{
              ...items[index].track.artists[0],
              "name": override.artist
          }]
          if (override.date) items[index].track.album.release_date = override.date;
      }
  }
  \<close>
  Spreading \<^verbatim>\<open>artists[0]\<close> of an empty list spreads \<^verbatim>\<open>undefined\<close>, which adds nothing.
\<close>

definition applyName :: "jsstring option \<Rightarrow> Track \<Rightarrow> Track" where
  "applyName v t =
     (case v of None \<Rightarrow> t | Some n \<Rightarrow> if n \<noteq> [] then t\<lparr>track_name := n\<rparr> else t)"

definition applyArtist :: "jsstring option \<Rightarrow> Track \<Rightarrow> Track" where
  "applyArtist v t =
     (case v of
        None \<Rightarrow> t
      | Some a \<Rightarrow>
          if a \<noteq> []
          then t\<lparr>artists := [case artists t of
                               [] \<Rightarrow> \<lparr>artist_name = a\<rparr>
                             | first # _ \<Rightarrow> first\<lparr>artist_name := a\<rparr>]\<rparr>
          else t)"

definition applyDate :: "jsstring option \<Rightarrow> Track \<Rightarrow> Track" where
  "applyDate v t =
     (case v of
        None \<Rightarrow> t
      | Some d \<Rightarrow> if d \<noteq> [] then t\<lparr>album := (album t)\<lparr>release_date := d\<rparr>\<rparr> else t)"

definition applyOverride :: "Overrides \<Rightarrow> PlaylistedTrack \<Rightarrow> PlaylistedTrack" where
  "applyOverride overrides item =
     (case getProperty overrides (spotify (external_urls (track item))) of
        None \<Rightarrow> item
      | Some override \<Rightarrow>
          item\<lparr>track :=
            applyDate (date override)
              (applyArtist (artist override) (applyName (name override) (track item)))\<rparr>)"

definition applyOverrides :: "Overrides \<Rightarrow> PlaylistedTrack list \<Rightarrow> PlaylistedTrack list" where
  "applyOverrides overrides items = map (applyOverride overrides) items"

text \<open>
  The operation as a whole. Its result is the state afterwards, the requests it issued
  and the error it rejected with, if any; \<open>None\<close> when the loop never ends.
  \<^verbatim>\<open>setPlaylistItems(items)\<close> is the last statement, so a rejection leaves the displayed
  list as it was.
\<close>

record Outcome =
  state :: AppState
  requests :: "Request list"
  rejected :: "error option"

definition getPlaylist :: "sdk \<Rightarrow> AppState \<Rightarrow> Outcome option" where
  "getPlaylist api st =
     (case playlistRegex_exec (playlistRegex_lastIndex st) (url st) of
        (None, lastIndex) \<Rightarrow>
          Some \<lparr>state = st\<lparr>playlistRegex_lastIndex := lastIndex\<rparr>,
                requests = [], rejected = None\<rparr>
      | (Some playlist, lastIndex) \<Rightarrow>
          (case fetchPages api playlist [] 0 [] of
             None \<Rightarrow> None
           | Some (Inl e, issued) \<Rightarrow>
               Some \<lparr>state = st\<lparr>playlistRegex_lastIndex := lastIndex\<rparr>,
                     requests = issued, rejected = Some e\<rparr>
           | Some (Inr items, issued) \<Rightarrow>
               (let overrideJson = (case overrideJsonRef st of None \<Rightarrow> [] | Some v \<Rightarrow> v);
                    overrides = buildOverrides overrideJson
                in Some \<lparr>state = st\<lparr>playlistRegex_lastIndex := lastIndex,
                                    playlistItems := Some (applyOverrides overrides items)\<rparr>,
                         requests = issued, rejected = None\<rparr>)))"

section \<open>The document that \<^verbatim>\<open>App\<close> renders\<close>

text \<open>
  The tree handed to the PDF renderer, without its styling and without the guide marks
  between the rows. A page holds its rows; a row holds its direction
  (\<^verbatim>\<open>flexDirection: "row"\<close> or \<^verbatim>\<open>"row-reverse"\<close>) and its cards in the order of the
  children. A front card shows the title, the year, the artists and the optional name;
  a back card shows one image.
\<close>

datatype flexDirection = FlexRow | FlexRowReverse

text \<open>
  The source of an image: the data URL that \<^verbatim>\<open>QRCode.toDataURL(data, {errorCorrectionLevel})\<close>
  returns, kept as its two arguments, or a remote URL.
\<close>

datatype imageSrc = QRCode_toDataURL jsstring jsstring | RemoteUrl jsstring

record FrontCard =
  front_key :: jsstring
  title :: jsstring
  year :: jsstring
  artist_line :: jsstring
  name_line :: "jsstring option"

record BackCard =
  back_key :: jsstring
  image :: imageSrc

datatype card = Front FrontCard | Back BackCard

record RowView =
  direction :: flexDirection
  cards :: "card list"

datatype side = FrontSide | BackSide

record PDFPage =
  page_side :: side
  page_rows :: "RowView list"

text \<open>\<^verbatim>\<open>Array.prototype.join\<close> on strings.\<close>

fun join :: "jsstring \<Rightarrow> jsstring list \<Rightarrow> jsstring" where
  "join sep [] = []"
| "join sep [x] = x"
| "join sep (x # y # ys) = x @ sep @ join sep (y # ys)"

text \<open>
  \<^verbatim>\<open>generateSessionPDFQrCode(data) = QRCode.toDataURL(data, {errorCorrectionLevel: "H"})\<close>
\<close>

definition generateSessionPDFQrCode :: "jsstring \<Rightarrow> imageSrc" where
  "generateSessionPDFQrCode data = QRCode_toDataURL data (lit ''H'')"

text \<open>
  The card of the front page. \<open>dayjs_YYYY\<close> stands for
  \<^verbatim>\<open>dayjs(release_date).format('YYYY')\<close>; \<^verbatim>\<open>{name && ...}\<close> shows the name when it is
  not empty.
\<close>

definition frontCard :: "(jsstring \<Rightarrow> jsstring) \<Rightarrow> jsstring \<Rightarrow> PlaylistedTrack \<Rightarrow> card" where
  "frontCard dayjs_YYYY name' item =
     Front \<lparr>front_key = track_id (track item),
            title = track_name (track item),
            year = dayjs_YYYY (release_date (album (track item))),
            artist_line = join (lit '', '') (map artist_name (artists (track item))),
            name_line = (if name' \<noteq> [] then Some name' else None)\<rparr>"

text \<open>
  The card of the back page:
  \<^verbatim>\<open>codeType === 'qr' ? <Image src={generateSessionPDFQrCode(`spotify:track:${item.track.id}`)}/>
      : <Image src={`https://scannables.scdn.co/uri/plain/jpeg/FFFFFF/black/320/spotify:track:` + item.track.id}/>\<close>
\<close>

definition backCard :: "jsstring \<Rightarrow> PlaylistedTrack \<Rightarrow> card" where
  "backCard codeType' item =
     (if codeType' = lit ''qr''
      then Back \<lparr>back_key = track_id (track item),
                 image = generateSessionPDFQrCode (lit ''spotify:track:'' @ track_id (track item))\<rparr>
      else Back \<lparr>back_key = track_id (track item),
                 image = RemoteUrl
                   (lit ''https://scannables.scdn.co/uri/plain/jpeg/FFFFFF/black/320/spotify:track:''
                      @ track_id (track item))\<rparr>)"

text \<open>Running a step that may throw over a list, left to right.\<close>

fun mapThrowing :: "('a \<Rightarrow> error + 'b) \<Rightarrow> 'a list \<Rightarrow> error + 'b list" where
  "mapThrowing f [] = Inr []"
| "mapThrowing f (x # xs) =
     (case f x of
        Inl e \<Rightarrow> Inl e
      | Inr y \<Rightarrow> (case mapThrowing f xs of Inl e \<Rightarrow> Inl e | Inr ys \<Rightarrow> Inr (y # ys)))"

text \<open>
  One element of \<^verbatim>\<open>arrayChunks(playlistItems, 12).map((pageChunks, pageIndex) => ...)\<close>:
  a front page and a back page, each from \<^verbatim>\<open>arrayChunks(pageChunks, 3)\<close>.
\<close>

definition pagePair ::
  "(jsstring \<Rightarrow> jsstring) \<Rightarrow> jsstring \<Rightarrow> jsstring \<Rightarrow> PlaylistedTrack list
     \<Rightarrow> error + PDFPage list" where
  "pagePair dayjs_YYYY name' codeType' pageChunks =
     (case arrayChunks pageChunks 3 of
        Inl e \<Rightarrow> Inl e
      | Inr frontRows \<Rightarrow>
         (case arrayChunks pageChunks 3 of
            Inl e \<Rightarrow> Inl e
          | Inr backRows \<Rightarrow>
              Inr [\<lparr>page_side = FrontSide,
                    page_rows = map (\<lambda>rowChunk.
                      \<lparr>direction = FlexRow,
                       cards = map (frontCard dayjs_YYYY name') rowChunk\<rparr>) frontRows\<rparr>,
                   \<lparr>page_side = BackSide,
                    page_rows = map (\<lambda>rowChunk.
                      \<lparr>direction = FlexRowReverse,
                       cards = map (backCard codeType') rowChunk\<rparr>) backRows\<rparr>]))"

definition document ::
  "(jsstring \<Rightarrow> jsstring) \<Rightarrow> jsstring \<Rightarrow> jsstring \<Rightarrow> PlaylistedTrack list
     \<Rightarrow> error + PDFPage list" where
  "document dayjs_YYYY name' codeType' items =
     (case arrayChunks items 12 of
        Inl e \<Rightarrow> Inl e
      | Inr pageChunks \<Rightarrow>
         (case mapThrowing (pagePair dayjs_YYYY name' codeType') pageChunks of
            Inl e \<Rightarrow> Inl e
          | Inr pairs \<Rightarrow> Inr (concat pairs)))"

text \<open>\<^verbatim>\<open>{playlistItems && (<PDFViewer><Document>...</Document></PDFViewer>)}\<close>\<close>

definition render :: "(jsstring \<Rightarrow> jsstring) \<Rightarrow> AppState \<Rightarrow> (error + PDFPage list) option" where
  "render dayjs_YYYY st =
     (case playlistItems st of
        None \<Rightarrow> None
      | Some items \<Rightarrow> Some (document dayjs_YYYY (name_state st) (codeType st) items))"

text \<open>
  What the layout engine makes of a row: with \<^verbatim>\<open>row\<close> the children run from left to
  right, with \<^verbatim>\<open>row-reverse\<close> from right to left. \<open>leftToRight\<close> lists the keys of a
  row's cards as they appear on the sheet.
\<close>

definition cardKey :: "card \<Rightarrow> jsstring" where
  "cardKey c = (case c of Front f \<Rightarrow> front_key f | Back b \<Rightarrow> back_key b)"

definition leftToRight :: "RowView \<Rightarrow> jsstring list" where
  "leftToRight r =
     (case direction r of
        FlexRow \<Rightarrow> map cardKey (cards r)
      | FlexRowReverse \<Rightarrow> rev (map cardKey (cards r)))"

definition pageCards :: "PDFPage \<Rightarrow> card list" where
  "pageCards p = concat (map cards (page_rows p))"

section \<open>Notions of the specification and example data\<close>

text \<open>
  A string has the shape of \<^verbatim>\<open>trackUrlRegex\<close>, read off the pattern: the fixed prefix,
  \<^verbatim>\<open>episode\<close> or \<^verbatim>\<open>track\<close>, a slash, the longest non-empty run \<open>ident\<close> of
  identifier characters, and a remainder \<open>rest\<close> on the same line.
\<close>

definition trackUrlShape :: "jsstring \<Rightarrow> jsstring \<Rightarrow> jsstring \<Rightarrow> jsstring \<Rightarrow> bool" where
  "trackUrlShape s kind ident rest =
     ((kind = lit ''episode'' \<or> kind = lit ''track'') \<and> ident \<noteq> [] \<and> list_all idChar ident \<and>
      (rest = [] \<or> \<not> idChar (hd rest)) \<and> list_all (\<lambda>c. \<not> isLineTerminator c) rest \<and>
      s = lit ''https://open.spotify.com/'' @ kind @ lit ''/'' @ ident @ rest)"

text \<open>
  An entry with two artists, and three override items for it: one that sets the date
  and carries an empty name, one that sets the artist, and one whose fields are all
  empty or missing.
\<close>

definition exampleTrack :: PlaylistedTrack where
  "exampleTrack =
     \<lparr>added_at = lit ''2024-01-01T00:00:00Z'',
      track = \<lparr>track_id = lit ''ABC123'', track_name = lit ''Song'',
               artists = [\<lparr>artist_name = lit ''First''\<rparr>, \<lparr>artist_name = lit ''Second''\<rparr>],
               album = \<lparr>release_date = lit ''2010-05-01''\<rparr>,
               track_type = lit ''track'',
               external_urls = \<lparr>spotify = lit ''https://open.spotify.com/track/ABC123''\<rparr>\<rparr>\<rparr>"

definition dateOverride :: OverrideItem where
  "dateOverride =
     \<lparr>link = lit ''https://open.spotify.com/track/ABC123?si=xyz'',
      date = Some (lit ''1999''), artist = None, name = Some []\<rparr>"

definition artistOverride :: OverrideItem where
  "artistOverride =
     \<lparr>link = lit ''https://open.spotify.com/track/ABC123?si=xyz'',
      date = None, artist = Some (lit ''Someone''), name = None\<rparr>"

definition emptyOverride :: OverrideItem where
  "emptyOverride =
     \<lparr>link = lit ''https://open.spotify.com/track/ABC123?si=xyz'',
      date = Some [], artist = None, name = Some []\<rparr>"

text \<open>
  A string holds a playlist URL as \<^verbatim>\<open>playlistRegex\<close> reads it: at the start of one of
  its lines stands \<^verbatim>\<open>https://open.spotify.com/playlist/\<close> and an identifier character.
\<close>

definition playlistUrlShape :: "jsstring \<Rightarrow> bool" where
  "playlistUrlShape s =
     (\<exists>before c after.
        s = before @ lit ''https://open.spotify.com/playlist/'' @ c # after \<and> idChar c \<and>
        (before = [] \<or> isLineTerminator (last before)))"

text \<open>
  The states that the page can be in: the first one, and what the handlers make of a
  state that it can be in. \<^verbatim>\<open>JSON.parse\<close> and the API are fixed.
\<close>

inductive reachable :: "(jsstring \<Rightarrow> OverrideItem list option) \<Rightarrow> sdk \<Rightarrow> AppState \<Rightarrow> bool"
  for JSON_parse :: "jsstring \<Rightarrow> OverrideItem list option" and api :: sdk where
  initial: "reachable JSON_parse api initialState"
| urlChanged: "reachable JSON_parse api st \<Longrightarrow> reachable JSON_parse api (setUrl st v)"
| nameSet: "reachable JSON_parse api st \<Longrightarrow> reachable JSON_parse api (setCardName st v)"
| codeTypeChanged: "reachable JSON_parse api st \<Longrightarrow> reachable JSON_parse api (setCodeType st v)"
| advancedToggled: "reachable JSON_parse api st \<Longrightarrow> reachable JSON_parse api (toggleAdvancedOptions st)"
| overrideChanged:
    "reachable JSON_parse api st \<Longrightarrow> reachable JSON_parse api (handleOverrideChange JSON_parse st input)"
| playlistLoaded:
    "reachable JSON_parse api st \<Longrightarrow> getPlaylist api st = Some out \<Longrightarrow>
     reachable JSON_parse api (state out)"

text \<open>
  A stand-in for \<^verbatim>\<open>JSON.parse\<close> on two inputs: the empty array parses, everything else
  throws.
\<close>

definition parseEmptyArrayOnly :: "jsstring \<Rightarrow> OverrideItem list option" where
  "parseEmptyArrayOnly input = (if input = lit ''[]'' then Some [] else None)"

text \<open>An API that answers every request with one empty page that has no successor.\<close>

definition emptyPlaylistApi :: sdk where
  "emptyPlaylistApi request =
     Inr \<lparr>page_offset = req_offset request, page_limit = req_limit request,
          page_next = None, page_items = []\<rparr>"

text \<open>
  A playlist takes \<open>k\<close> pages from an offset on: the page at the offset is delivered,
  and either it names no next page and \<open>k\<close> is 1, or it names one and the playlist
  takes \<open>k - 1\<close> pages from the offset moved on by the limit that the page reports.
\<close>

fun requiresPages :: "sdk \<Rightarrow> jsstring \<Rightarrow> nat \<Rightarrow> nat \<Rightarrow> bool" where
  "requiresPages api playlist offset 0 = False"
| "requiresPages api playlist offset (Suc k) =
     (case api (pageRequest playlist offset) of
        Inl e \<Rightarrow> False
      | Inr result \<Rightarrow>
          if page_next result = None then k = 0
          else requiresPages api playlist (offset + page_limit result) k)"

text \<open>The offsets of the requests for a list of pages, the first at the given offset.\<close>

fun offsetsFrom :: "nat \<Rightarrow> Page list \<Rightarrow> nat list" where
  "offsetsFrom offset [] = []"
| "offsetsFrom offset (p # ps) = offset # offsetsFrom (offset + page_limit p) ps"

text \<open>
  An API that serves a fixed list of entries the way the paging object of the Web API
  is documented: the entries from the offset on, at most as many as the limit asked
  for, and a next page when entries remain after them.
\<close>

definition paginated :: "PlaylistedTrack list \<Rightarrow> sdk" where
  "paginated entries request =
     Inr \<lparr>page_offset = req_offset request, page_limit = req_limit request,
          page_next = (if req_offset request + req_limit request < length entries
                       then Some (lit ''next'') else None),
          page_items = take (req_limit request) (drop (req_offset request) entries)\<rparr>"

text \<open>
  The chunks that \<^verbatim>\<open>arrayChunks\<close> returns when it returns: chunk \<open>i\<close> is the \<open>k\<close>
  elements from index \<open>i * k\<close> on, or as many as are left.
\<close>

definition chunks :: "'a list \<Rightarrow> nat \<Rightarrow> 'a list list" where
  "chunks xs k = map (\<lambda>i. take k (drop (i * k) xs)) [0 ..< (length xs + k - 1) div k]"

text \<open>Entry number \<open>n\<close> of a playlist of entries that differ in their identifiers.\<close>

definition numberedTrack :: "nat \<Rightarrow> PlaylistedTrack" where
  "numberedTrack n = exampleTrack\<lparr>track := (track exampleTrack)\<lparr>track_id := [of_nat n]\<rparr>\<rparr>"

section \<open>Properties\<close>

subsection \<open>The key of an override item\<close>

lemma stripPrefix_append: "stripPrefix p (p @ s) = Some s"
  by (simp add: stripPrefix_def)

lemma stripPrefix_SomeD: "stripPrefix p s = Some r \<Longrightarrow> s = p @ r"
  by (auto simp: stripPrefix_def split: if_splits) (metis append_take_drop_id)

lemma takeWhile_maximal:
  "list_all P xs \<Longrightarrow> ys = [] \<or> \<not> P (hd ys) \<Longrightarrow> takeWhile P (xs @ ys) = xs"
  by (cases ys) (auto simp: list_all_iff takeWhile_append2)

lemma dropWhile_maximal:
  "list_all P xs \<Longrightarrow> ys = [] \<or> \<not> P (hd ys) \<Longrightarrow> dropWhile P (xs @ ys) = ys"
  by (cases ys) (auto simp: list_all_iff dropWhile_append2)

lemma dropWhile_stops: "dropWhile P xs = [] \<or> \<not> P (hd (dropWhile P xs))"
  by (metis hd_dropWhile)

lemma episode_not_track: "stripPrefix (lit ''episode'') (lit ''track'' @ x) = None"
  by (simp add: stripPrefix_def lit_def)

lemma exec_matched:
  assumes "trackUrlShape s kind ident rest"
  shows "trackUrlRegex_exec s = Some (lit ''https://open.spotify.com/'' @ kind @ lit ''/'' @ ident)"
proof -
  from assms have k: "kind = lit ''episode'' \<or> kind = lit ''track''"
    and i: "ident \<noteq> []" "list_all idChar ident" and r: "rest = [] \<or> \<not> idChar (hd rest)"
    and l: "list_all (\<lambda>c. \<not> isLineTerminator c) rest"
    and s: "s = lit ''https://open.spotify.com/'' @ kind @ lit ''/'' @ ident @ rest"
    by (auto simp: trackUrlShape_def)
  have alt: "(case stripPrefix (lit ''episode'') (kind @ lit ''/'' @ ident @ rest) of
                  Some r \<Rightarrow> Some r
                | None \<Rightarrow> stripPrefix (lit ''track'') (kind @ lit ''/'' @ ident @ rest))
             = Some (lit ''/'' @ ident @ rest)"
    using k by (auto simp: stripPrefix_append episode_not_track)
  show ?thesis
    unfolding trackUrlRegex_exec_def s
    by (simp only: stripPrefix_append alt option.case takeWhile_maximal[OF i(2) r]
        dropWhile_maximal[OF i(2) r] Let_def) (simp add: i l)
qed

lemma exec_SomeD:
  assumes "trackUrlRegex_exec s = Some m"
  shows "\<exists>kind ident rest. trackUrlShape s kind ident rest \<and>
           m = lit ''https://open.spotify.com/'' @ kind @ lit ''/'' @ ident"
proof -
  from assms obtain s1 where s1: "stripPrefix (lit ''https://open.spotify.com/'') s = Some s1"
    by (auto simp: trackUrlRegex_exec_def split: option.splits)
  from assms s1 obtain s2 where s2: "(case stripPrefix (lit ''episode'') s1 of
                  Some r \<Rightarrow> Some r
                | None \<Rightarrow> stripPrefix (lit ''track'') s1) = Some s2"
    by (auto simp: trackUrlRegex_exec_def split: option.splits)
  then obtain kind where k: "kind = lit ''episode'' \<or> kind = lit ''track''" and ks: "s1 = kind @ s2"
    by (auto split: option.splits dest: stripPrefix_SomeD)
  from assms s1 s2 obtain s3 where s3: "stripPrefix (lit ''/'') s2 = Some s3"
    by (auto simp: trackUrlRegex_exec_def split: option.splits)
  let ?ident = "takeWhile idChar s3" and ?rest = "dropWhile idChar s3"
  from assms s1 s2 s3 have c: "?ident \<noteq> []" "list_all (\<lambda>c. \<not> isLineTerminator c) ?rest"
    and m: "m = take (length s - length ?rest) s"
    by (auto simp: trackUrlRegex_exec_def Let_def split: if_splits)
  have s: "s = lit ''https://open.spotify.com/'' @ kind @ lit ''/'' @ ?ident @ ?rest"
    using stripPrefix_SomeD[OF s1] ks stripPrefix_SomeD[OF s3] by simp
  have "m = lit ''https://open.spotify.com/'' @ kind @ lit ''/'' @ ?ident"
  proof -
    have "take (length (P @ ?rest) - length ?rest) (P @ ?rest) = P" for P :: jsstring
      by simp
    from this[of "lit ''https://open.spotify.com/'' @ kind @ lit ''/'' @ ?ident"] s m
    show ?thesis by simp
  qed
  moreover have "trackUrlShape s kind ?ident ?rest"
    unfolding trackUrlShape_def using k c s dropWhile_stops[of idChar s3]
    by (auto simp: list_all_iff dest: set_takeWhileD)
  ultimately show ?thesis by blast
qed

text \<open>
  Claim C1. The key of an override item is the prefix
  \<^verbatim>\<open>https://open.spotify.com/(episode|track)/<id>\<close> of its link when the link has the
  shape of the pattern, whatever follows the identifier on the line being dropped, and
  the link itself when it has not.
\<close>

theorem overrideKey_derivation:
  "(\<forall>kind ident rest. trackUrlShape (link item) kind ident rest \<longrightarrow>
      overrideKey item = lit ''https://open.spotify.com/'' @ kind @ lit ''/'' @ ident) \<and>
   ((\<nexists>kind ident rest. trackUrlShape (link item) kind ident rest) \<longrightarrow>
      overrideKey item = link item)"
proof (intro conjI allI impI)
  fix kind ident rest
  assume "trackUrlShape (link item) kind ident rest"
  then show "overrideKey item = lit ''https://open.spotify.com/'' @ kind @ lit ''/'' @ ident"
    by (simp add: overrideKey_def exec_matched)
next
  assume "\<nexists>kind ident rest. trackUrlShape (link item) kind ident rest"
  then have "trackUrlRegex_exec (link item) = None"
    using exec_SomeD[of "link item"] by (cases "trackUrlRegex_exec (link item)") auto
  then show "overrideKey item = link item"
    by (simp add: overrideKey_def)
qed

text \<open>
  The two inputs of the specification, and a link to an album, which the pattern refuses.
\<close>

theorem overrideKey_derivation_witness:
  "overrideKey \<lparr>link = lit ''https://open.spotify.com/track/ABC123?si=xyz'',
                date = None, artist = None, name = None\<rparr>
     = lit ''https://open.spotify.com/track/ABC123'' \<and>
   overrideKey \<lparr>link = lit ''https://open.spotify.com/track/ABC123'',
                date = None, artist = None, name = None\<rparr>
     = lit ''https://open.spotify.com/track/ABC123'' \<and>
   overrideKey \<lparr>link = lit ''https://open.spotify.com/album/ABC123?si=xyz'',
                date = None, artist = None, name = None\<rparr>
     = lit ''https://open.spotify.com/album/ABC123?si=xyz''"
proof (intro conjI)
  let ?a = "\<lparr>link = lit ''https://open.spotify.com/track/ABC123?si=xyz'',
                date = None, artist = None, name = None\<rparr>"
  have "trackUrlShape (link ?a) (lit ''track'') (lit ''ABC123'') (lit ''?si=xyz'')"
    by (simp add: trackUrlShape_def lit_def idChar_def isLineTerminator_def)
  from overrideKey_derivation[of ?a, THEN conjunct1, rule_format, OF this]
  show "overrideKey ?a = lit ''https://open.spotify.com/track/ABC123''"
    by (simp add: lit_def)
next
  let ?b = "\<lparr>link = lit ''https://open.spotify.com/track/ABC123'',
                date = None, artist = None, name = None\<rparr>"
  have "trackUrlShape (link ?b) (lit ''track'') (lit ''ABC123'') []"
    by (simp add: trackUrlShape_def lit_def idChar_def)
  from overrideKey_derivation[of ?b, THEN conjunct1, rule_format, OF this]
  show "overrideKey ?b = lit ''https://open.spotify.com/track/ABC123''"
    by (simp add: lit_def)
next
  let ?c = "\<lparr>link = lit ''https://open.spotify.com/album/ABC123?si=xyz'',
                date = None, artist = None, name = None\<rparr>"
  have "\<nexists>kind ident rest. trackUrlShape (link ?c) kind ident rest"
    by (auto simp: trackUrlShape_def lit_def)
  from overrideKey_derivation[of ?c, THEN conjunct2, rule_format, OF this]
  show "overrideKey ?c = lit ''https://open.spotify.com/album/ABC123?si=xyz''"
    by simp
qed

subsection \<open>The override index\<close>

lemma map_of_setProperty: "map_of (setProperty ps k v) = (map_of ps)(k \<mapsto> v)"
  by (induction ps) (auto simp: fun_eq_iff)

lemma keys_setProperty: "fst ` set (setProperty ps k v) = insert k (fst ` set ps)"
proof -
  have "fst ` set (setProperty ps k v) = dom (map_of (setProperty ps k v))"
    by (simp add: dom_map_of_conv_image_fst)
  also have "\<dots> = insert k (dom (map_of ps))"
    by (simp add: map_of_setProperty)
  finally show ?thesis
    by (simp add: dom_map_of_conv_image_fst)
qed

lemma find_append:
  "List.find P (xs @ ys) = (case List.find P xs of Some x \<Rightarrow> Some x | None \<Rightarrow> List.find P ys)"
  by (induction xs) simp_all

lemma distinct_setProperty:
  "distinct (map fst ps) \<Longrightarrow> distinct (map fst (setProperty ps k v))"
proof (induction ps)
  case Nil
  then show ?case by simp
next
  case (Cons p ps)
  then show ?case
    using keys_setProperty[of ps k v] by (cases p) auto
qed

lemma distinct_foldl_setProperty:
  "distinct (map fst acc) \<Longrightarrow>
   distinct (map fst (foldl (\<lambda>overrides item. setProperty overrides (f item) item) acc xs))"
  by (induction xs arbitrary: acc) (simp_all add: distinct_setProperty)

lemma map_of_foldl_setProperty:
  "map_of (foldl (\<lambda>overrides item. setProperty overrides (f item) item) acc xs) k =
     (case List.find (\<lambda>item. f item = k) (rev xs) of
        Some item \<Rightarrow> Some item
      | None \<Rightarrow> map_of acc k)"
proof (induction xs arbitrary: acc)
  case Nil
  then show ?case by simp
next
  case (Cons x xs)
  show ?case
    by (simp add: Cons.IH map_of_setProperty find_append split: option.splits)
qed

lemma find_rev_last:
  assumes "i < length xs" and "\<forall>j. i < j \<and> j < length xs \<longrightarrow> \<not> P (xs ! j)" and "P (xs ! i)"
  shows "List.find P (rev xs) = Some (xs ! i)"
proof -
  have xs: "xs = take i xs @ (xs ! i) # drop (Suc i) xs"
    using assms(1) by (simp add: id_take_nth_drop)
  have none: "List.find P (rev (drop (Suc i) xs)) = None"
    using assms(2) by (auto simp: find_None_iff in_set_conv_nth)
  have "rev xs = rev (drop (Suc i) xs) @ (xs ! i) # rev (take i xs)"
    by (subst xs) simp
  then show ?thesis
    using none assms(3) by (simp add: find_append)
qed

text \<open>
  Claim C7. The keys of the override index are distinct, and a key is mapped to the
  last item of the list that derives it.
\<close>

theorem buildOverrides_last_wins:
  "distinct (map fst (buildOverrides overrideJson)) \<and>
   getProperty (buildOverrides overrideJson) k =
     List.find (\<lambda>item. overrideKey item = k) (rev overrideJson) \<and>
   (\<forall>i < length overrideJson.
      (\<forall>j. i < j \<and> j < length overrideJson \<longrightarrow>
           overrideKey (overrideJson ! j) \<noteq> overrideKey (overrideJson ! i)) \<longrightarrow>
      getProperty (buildOverrides overrideJson) (overrideKey (overrideJson ! i)) =
        Some (overrideJson ! i))"
proof -
  have d: "distinct (map fst (buildOverrides overrideJson))"
    unfolding buildOverrides_def by (rule distinct_foldl_setProperty) simp
  have g: "getProperty (buildOverrides overrideJson) k' =
     List.find (\<lambda>item. overrideKey item = k') (rev overrideJson)" for k'
    unfolding buildOverrides_def getProperty_def
    by (simp add: map_of_foldl_setProperty split: option.splits)
  have l: "getProperty (buildOverrides overrideJson) (overrideKey (overrideJson ! i)) =
        Some (overrideJson ! i)"
    if "i < length overrideJson"
      and "\<forall>j. i < j \<and> j < length overrideJson \<longrightarrow>
           overrideKey (overrideJson ! j) \<noteq> overrideKey (overrideJson ! i)" for i
    unfolding g using that by (intro find_rev_last) auto
  from d g l show ?thesis by blast
qed

text \<open>Two items whose links differ in the share token only: one key, the second item.\<close>

theorem buildOverrides_last_wins_witness:
  "map fst (buildOverrides
     [\<lparr>link = lit ''https://open.spotify.com/track/ABC123?si=one'',
       date = Some (lit ''1999''), artist = None, name = None\<rparr>,
      \<lparr>link = lit ''https://open.spotify.com/track/ABC123?si=two'',
       date = Some (lit ''2004''), artist = None, name = None\<rparr>])
     = [lit ''https://open.spotify.com/track/ABC123''] \<and>
   getProperty (buildOverrides
     [\<lparr>link = lit ''https://open.spotify.com/track/ABC123?si=one'',
       date = Some (lit ''1999''), artist = None, name = None\<rparr>,
      \<lparr>link = lit ''https://open.spotify.com/track/ABC123?si=two'',
       date = Some (lit ''2004''), artist = None, name = None\<rparr>])
     (lit ''https://open.spotify.com/track/ABC123'')
     = Some \<lparr>link = lit ''https://open.spotify.com/track/ABC123?si=two'',
              date = Some (lit ''2004''), artist = None, name = None\<rparr>"
proof -
  let ?one = "\<lparr>link = lit ''https://open.spotify.com/track/ABC123?si=one'',
       date = Some (lit ''1999''), artist = None, name = None\<rparr>"
  let ?two = "\<lparr>link = lit ''https://open.spotify.com/track/ABC123?si=two'',
       date = Some (lit ''2004''), artist = None, name = None\<rparr>"
  have k1: "overrideKey ?one = lit ''https://open.spotify.com/track/ABC123''"
    by (simp add: overrideKey_def trackUrlRegex_exec_def stripPrefix_def lit_def idChar_def
        isLineTerminator_def)
  have k2: "overrideKey ?two = lit ''https://open.spotify.com/track/ABC123''"
    by (simp add: overrideKey_def trackUrlRegex_exec_def stripPrefix_def lit_def idChar_def
        isLineTerminator_def)
  have keys: "map fst (buildOverrides [?one, ?two]) = [lit ''https://open.spotify.com/track/ABC123'']"
    by (simp add: buildOverrides_def k1 k2)
  from buildOverrides_last_wins[of "[?one, ?two]" "lit ''https://open.spotify.com/track/ABC123''"]
  have "getProperty (buildOverrides [?one, ?two]) (lit ''https://open.spotify.com/track/ABC123'')
          = List.find (\<lambda>item. overrideKey item = lit ''https://open.spotify.com/track/ABC123'')
              (rev [?one, ?two])"
    by blast
  then show ?thesis
    using keys by (simp add: k1 k2)
qed

subsection \<open>The merge\<close>

lemma applyOverrides_nth:
  "i < length items \<Longrightarrow>
   getProperty overrides (spotify (external_urls (track (items ! i)))) = Some override \<Longrightarrow>
   applyOverrides overrides items ! i =
     (items ! i)\<lparr>track := applyDate (date override)
        (applyArtist (artist override) (applyName (name override) (track (items ! i))))\<rparr>"
  by (simp add: applyOverrides_def applyOverride_def)

lemma length_applyOverrides: "length (applyOverrides overrides items) = length items"
  by (simp add: applyOverrides_def)

lemma example_keys:
  "overrideKey dateOverride = lit ''https://open.spotify.com/track/ABC123''"
  "overrideKey artistOverride = lit ''https://open.spotify.com/track/ABC123''"
  "overrideKey emptyOverride = lit ''https://open.spotify.com/track/ABC123''"
  by (simp_all add: overrideKey_def dateOverride_def artistOverride_def emptyOverride_def
      trackUrlRegex_exec_def stripPrefix_def lit_def idChar_def isLineTerminator_def)

lemma example_lookup:
  "getProperty (buildOverrides [ov]) (overrideKey ov) = Some ov"
  by (simp add: buildOverrides_def getProperty_def)

lemma example_url:
  "spotify (external_urls (track exampleTrack)) = lit ''https://open.spotify.com/track/ABC123''"
  by (simp add: exampleTrack_def)

text \<open>
  Claim C2. For an entry whose URL is a key of the override index, the merge sets the
  name, the artist and the release date each from its own field of the override, and
  only when that field is present and not empty; every other part of the entry stays.
  An override whose name and artist are empty changes the release date at most, and one
  whose three fields are empty gives back the entry as it was.
\<close>

theorem applyOverrides_fields:
  assumes "i < length items"
    and "getProperty overrides (spotify (external_urls (track (items ! i)))) = Some override"
  shows
    "length (applyOverrides overrides items) = length items \<and>
     (truthy (name override) \<longrightarrow>
        Some (track_name (track (applyOverrides overrides items ! i))) = name override) \<and>
     (\<not> truthy (name override) \<longrightarrow>
        track_name (track (applyOverrides overrides items ! i)) = track_name (track (items ! i))) \<and>
     (truthy (artist override) \<longrightarrow>
        map (\<lambda>a. Some (artist_name a)) (artists (track (applyOverrides overrides items ! i)))
          = [artist override]) \<and>
     (\<not> truthy (artist override) \<longrightarrow>
        artists (track (applyOverrides overrides items ! i)) = artists (track (items ! i))) \<and>
     (truthy (date override) \<longrightarrow>
        Some (release_date (album (track (applyOverrides overrides items ! i)))) = date override) \<and>
     (\<not> truthy (date override) \<longrightarrow>
        album (track (applyOverrides overrides items ! i)) = album (track (items ! i))) \<and>
     track_id (track (applyOverrides overrides items ! i)) = track_id (track (items ! i)) \<and>
     track_type (track (applyOverrides overrides items ! i)) = track_type (track (items ! i)) \<and>
     external_urls (track (applyOverrides overrides items ! i))
       = external_urls (track (items ! i)) \<and>
     added_at (applyOverrides overrides items ! i) = added_at (items ! i) \<and>
     (\<not> truthy (name override) \<and> \<not> truthy (artist override) \<and> \<not> truthy (date override) \<longrightarrow>
        applyOverrides overrides items ! i = items ! i)"
  unfolding applyOverrides_nth[OF assms] length_applyOverrides
  by (auto simp: applyName_def applyArtist_def applyDate_def truthy_def
      split: option.splits list.splits)

text \<open>
  The example entry under the override that sets the date only, and under the empty one.
\<close>

theorem applyOverrides_fields_witness:
  "applyOverrides (buildOverrides [dateOverride]) [exampleTrack] ! 0
     = exampleTrack\<lparr>track := (track exampleTrack)\<lparr>album := \<lparr>release_date = lit ''1999''\<rparr>\<rparr>\<rparr> \<and>
   track_name (track (applyOverrides (buildOverrides [dateOverride]) [exampleTrack] ! 0))
     = lit ''Song'' \<and>
   map artist_name (artists (track (applyOverrides (buildOverrides [dateOverride]) [exampleTrack] ! 0)))
     = [lit ''First'', lit ''Second''] \<and>
   applyOverrides (buildOverrides [emptyOverride]) [exampleTrack] ! 0 = exampleTrack"
proof -
  have d: "getProperty (buildOverrides [dateOverride])
             (spotify (external_urls (track ([exampleTrack] ! 0)))) = Some dateOverride"
    using example_lookup[of dateOverride] by (simp add: example_keys example_url)
  have e: "getProperty (buildOverrides [emptyOverride])
             (spotify (external_urls (track ([exampleTrack] ! 0)))) = Some emptyOverride"
    using example_lookup[of emptyOverride] by (simp add: example_keys example_url)
  have l: "0 < length [exampleTrack]" by simp
  note D = applyOverrides_fields[OF l d]
  note E = applyOverrides_fields[OF l e]
  have t: "\<not> truthy (name dateOverride)" "\<not> truthy (artist dateOverride)" "truthy (date dateOverride)"
    "\<not> truthy (name emptyOverride)" "\<not> truthy (artist emptyOverride)" "\<not> truthy (date emptyOverride)"
    by (simp_all add: truthy_def dateOverride_def emptyOverride_def lit_def)
  let ?new = "applyOverrides (buildOverrides [dateOverride]) [exampleTrack] ! 0"
  from D t have n: "track_name (track ?new) = track_name (track exampleTrack)"
    and a: "artists (track ?new) = artists (track exampleTrack)"
    and r: "Some (release_date (album (track ?new))) = date dateOverride"
    and i: "track_id (track ?new) = track_id (track exampleTrack)"
    and ty: "track_type (track ?new) = track_type (track exampleTrack)"
    and u: "external_urls (track ?new) = external_urls (track exampleTrack)"
    and ad: "added_at ?new = added_at exampleTrack"
    by simp_all
  from r have r': "album (track ?new) = \<lparr>release_date = lit ''1999''\<rparr>"
    by (cases "album (track ?new)") (simp add: dateOverride_def)
  have "track ?new = (track exampleTrack)\<lparr>album := \<lparr>release_date = lit ''1999''\<rparr>\<rparr>"
    using n a r' i ty u by (cases "track ?new") (simp add: exampleTrack_def)
  then have 1: "?new = exampleTrack\<lparr>track := (track exampleTrack)\<lparr>album := \<lparr>release_date = lit ''1999''\<rparr>\<rparr>\<rparr>"
    using ad by (cases ?new) (simp add: exampleTrack_def)
  have 2: "track_name (track ?new) = lit ''Song''"
    using n by (simp add: exampleTrack_def)
  have 3: "map artist_name (artists (track ?new)) = [lit ''First'', lit ''Second'']"
    using a by (simp add: exampleTrack_def)
  from E t have 4: "applyOverrides (buildOverrides [emptyOverride]) [exampleTrack] ! 0 = exampleTrack"
    by simp
  from 1 2 3 4 show ?thesis by blast
qed

text \<open>
  Claim C4, as amended. An override with a non-empty artist replaces the whole list of
  artists by a list of one entry: the first entry of the old list with its name set to
  the override's artist, or an entry with just that name when the old list was empty.
  The entries after the first are dropped.
\<close>

theorem applyOverrides_artist_singleton:
  assumes "i < length items"
    and "getProperty overrides (spotify (external_urls (track (items ! i)))) = Some override"
    and "artist override = Some a" and "a \<noteq> []"
  shows
    "artists (track (applyOverrides overrides items ! i)) =
       (case artists (track (items ! i)) of
          [] \<Rightarrow> [\<lparr>artist_name = a\<rparr>]
        | first # others \<Rightarrow> [first\<lparr>artist_name := a\<rparr>]) \<and>
     length (artists (track (applyOverrides overrides items ! i))) = 1"
  unfolding applyOverrides_nth[OF assms(1,2)]
  using assms(3,4)
  by (auto simp: applyName_def applyArtist_def applyDate_def split: option.splits list.splits)

text \<open>The example entry has two artists; one is left, with the new name.\<close>

theorem applyOverrides_artist_singleton_witness:
  "artists (track (applyOverrides (buildOverrides [artistOverride]) [exampleTrack] ! 0))
     = [\<lparr>artist_name = lit ''Someone''\<rparr>]"
proof -
  have l: "0 < length [exampleTrack]" by simp
  have g: "getProperty (buildOverrides [artistOverride])
             (spotify (external_urls (track ([exampleTrack] ! 0)))) = Some artistOverride"
    using example_lookup[of artistOverride] by (simp add: example_keys example_url)
  have a: "artist artistOverride = Some (lit ''Someone'')"
    by (simp add: artistOverride_def)
  have n: "lit ''Someone'' \<noteq> []"
    by (simp add: lit_def)
  from applyOverrides_artist_singleton[OF l g a n] show ?thesis
    by (simp add: exampleTrack_def)
qed

text \<open>
  Claim C4 as stated fails on the example entry: its second artist does not remain, and
  the length of the list changes from two to one.
\<close>

theorem applyOverrides_artist_counterexample:
  "getProperty (buildOverrides [artistOverride]) (spotify (external_urls (track exampleTrack)))
     = Some artistOverride \<and>
   truthy (artist artistOverride) \<and>
   map artist_name (artists (track exampleTrack)) = [lit ''First'', lit ''Second''] \<and>
   map artist_name
     (artists (track (applyOverrides (buildOverrides [artistOverride]) [exampleTrack] ! 0)))
     = [lit ''Someone''] \<and>
   length (artists (track (applyOverrides (buildOverrides [artistOverride]) [exampleTrack] ! 0)))
     \<noteq> length (artists (track exampleTrack))"
proof -
  have g: "getProperty (buildOverrides [artistOverride])
             (spotify (external_urls (track exampleTrack))) = Some artistOverride"
    using example_lookup[of artistOverride] by (simp add: example_keys example_url)
  have t: "truthy (artist artistOverride)"
    by (simp add: truthy_def artistOverride_def lit_def)
  have o: "artists (track exampleTrack) = [\<lparr>artist_name = lit ''First''\<rparr>, \<lparr>artist_name = lit ''Second''\<rparr>]"
    by (simp add: exampleTrack_def)
  have n: "artists (track (applyOverrides (buildOverrides [artistOverride]) [exampleTrack] ! 0))
             = [\<lparr>artist_name = lit ''Someone''\<rparr>]"
    using g by (simp add: applyOverrides_def applyOverride_def applyName_def applyArtist_def
        applyDate_def artistOverride_def lit_def o)
  show ?thesis
    using g t by (simp add: o n)
qed

subsection \<open>The override field\<close>

lemma getPlaylist_overrideJsonRef:
  "getPlaylist api st = Some out \<Longrightarrow> overrideJsonRef (state out) = overrideJsonRef st"
  by (auto simp: getPlaylist_def Let_def split: prod.splits option.splits sum.splits)

lemma reachable_overrideJsonRef:
  "reachable JSON_parse api st \<Longrightarrow> overrideJsonRef st \<noteq> None"
proof (induction rule: reachable.induct)
  case (overrideChanged st input)
  then show ?case
    by (auto simp: handleOverrideChange_def split: option.splits)
next
  case (playlistLoaded st out)
  then show ?case
    by (simp add: getPlaylist_overrideJsonRef)
qed (simp_all add: initialState_def setUrl_def setCardName_def setCodeType_def
    toggleAdvancedOptions_def)

text \<open>
  Claim C6. In every state the page can be in, a text that \<^verbatim>\<open>JSON.parse\<close> refuses
  sets the message to \<^verbatim>\<open>Invalid JSON!\<close> and leaves the parsed override list as it was;
  a text that parses replaces the list and clears the message. Both store the text.
\<close>

theorem handleOverrideChange_stale_on_error:
  assumes "reachable JSON_parse api st"
  shows
    "(JSON_parse input = None \<longrightarrow>
        handleOverrideChange JSON_parse st input
          = st\<lparr>overrideJsonErrorMessage := lit ''Invalid JSON!'', overrideText := input\<rparr> \<and>
        overrideJsonRef (handleOverrideChange JSON_parse st input) = overrideJsonRef st) \<and>
     (\<forall>v. JSON_parse input = Some v \<longrightarrow>
        handleOverrideChange JSON_parse st input
          = st\<lparr>overrideJsonRef := Some v, overrideJsonErrorMessage := [], overrideText := input\<rparr>)"
proof -
  from reachable_overrideJsonRef[OF assms] obtain old where "overrideJsonRef st = Some old"
    by auto
  then show ?thesis
    by (simp add: handleOverrideChange_def)
qed

text \<open>
  On the first state: the empty array is stored with no message; a broken text after it
  gives the message and keeps the empty array.
\<close>

theorem handleOverrideChange_stale_on_error_witness:
  "handleOverrideChange parseEmptyArrayOnly initialState (lit ''[]'')
     = initialState\<lparr>overrideJsonRef := Some [], overrideJsonErrorMessage := [],
                     overrideText := lit ''[]''\<rparr> \<and>
   handleOverrideChange parseEmptyArrayOnly
       (handleOverrideChange parseEmptyArrayOnly initialState (lit ''[]'')) (lit ''[{'')
     = initialState\<lparr>overrideJsonRef := Some [],
                     overrideJsonErrorMessage := lit ''Invalid JSON!'',
                     overrideText := lit ''[{''\<rparr>"
proof -
  let ?p = parseEmptyArrayOnly
  have r0: "reachable ?p emptyPlaylistApi initialState"
    by (rule reachable.initial)
  have p1: "?p (lit ''[]'') = Some []" and p2: "?p (lit ''[{'') = None"
    by (simp_all add: parseEmptyArrayOnly_def lit_def)
  from handleOverrideChange_stale_on_error[OF r0, of "lit ''[]''"] p1
  have 1: "handleOverrideChange ?p initialState (lit ''[]'')
     = initialState\<lparr>overrideJsonRef := Some [], overrideJsonErrorMessage := [],
                     overrideText := lit ''[]''\<rparr>"
    by simp
  have r1: "reachable ?p emptyPlaylistApi (handleOverrideChange ?p initialState (lit ''[]''))"
    by (rule reachable.overrideChanged[OF r0])
  from handleOverrideChange_stale_on_error[OF r1, of "lit ''[{''"] p2
  have 2: "handleOverrideChange ?p (handleOverrideChange ?p initialState (lit ''[]'')) (lit ''[{'')
     = (handleOverrideChange ?p initialState (lit ''[]''))
         \<lparr>overrideJsonErrorMessage := lit ''Invalid JSON!'', overrideText := lit ''[{''\<rparr>"
    by simp
  show ?thesis
    using 1 2 by simp
qed

subsection \<open>The playlist pattern\<close>

lemma matchAt_shape:
  assumes "playlistRegex_matchAt s p = Some r" and "p \<le> length s"
  shows "playlistUrlShape s"
proof -
  let ?pre = "lit ''https://open.spotify.com/playlist/''"
  from assms(1) have ls: "atLineStart s p"
    by (auto simp: playlistRegex_matchAt_def split: if_splits)
  from assms(1) obtain s1 where s1: "stripPrefix ?pre (drop p s) = Some s1"
    by (auto simp: playlistRegex_matchAt_def split: if_splits option.splits)
  from assms(1) s1 have ne: "takeWhile idChar s1 \<noteq> []"
    by (auto simp: playlistRegex_matchAt_def Let_def split: if_splits)
  then obtain c after where c: "s1 = c # after" "idChar c"
    by (cases s1) (auto split: if_splits)
  have "s = take p s @ drop p s" by simp
  also have "drop p s = ?pre @ c # after"
    using stripPrefix_SomeD[OF s1] c by simp
  finally have s: "s = take p s @ ?pre @ c # after" .
  have "take p s = [] \<or> isLineTerminator (last (take p s))"
  proof (cases "p = 0")
    case True
    then show ?thesis by simp
  next
    case False
    with ls have "isLineTerminator (s ! (p - 1))"
      by (simp add: atLineStart_def)
    moreover have "last (take p s) = s ! (p - 1)"
    proof -
      from False assms(2) have n: "take p s \<noteq> []" and l: "length (take p s) = p"
        by auto
      from False show ?thesis
        unfolding last_conv_nth[OF n] l by simp
    qed
    ultimately show ?thesis by simp
  qed
  with s c(2) show ?thesis
    unfolding playlistUrlShape_def by blast
qed

lemma search_None:
  "\<not> playlistUrlShape s \<Longrightarrow> playlistRegex_search s i = None"
proof (induction s i rule: playlistRegex_search.induct)
  case (1 s i)
  show ?case
  proof (cases "length s < i")
    case True
    then show ?thesis by (subst playlistRegex_search.simps) simp
  next
    case False
    then have le: "i \<le> length s" by simp
    have m: "playlistRegex_matchAt s i = None"
      using matchAt_shape[OF _ le] "1.prems" by (cases "playlistRegex_matchAt s i") auto
    from "1.IH"[OF False m "1.prems"] False m show ?thesis
      by (subst playlistRegex_search.simps) simp
  qed
qed

lemma shape_matchAt:
  assumes "playlistUrlShape s"
  shows "\<exists>p r. p \<le> length s \<and> playlistRegex_matchAt s p = Some r"
proof -
  let ?pre = "lit ''https://open.spotify.com/playlist/''"
  from assms obtain before c after where s: "s = before @ ?pre @ c # after"
    and c: "idChar c" and b: "before = [] \<or> isLineTerminator (last before)"
    unfolding playlistUrlShape_def by blast
  have ls: "atLineStart s (length before)"
  proof (cases "before = []")
    case True
    then show ?thesis by (simp add: atLineStart_def)
  next
    case False
    with b have "isLineTerminator (last before)" by simp
    moreover have "s ! (length before - 1) = last before"
      using False unfolding s by (simp add: nth_append last_conv_nth)
    ultimately show ?thesis by (simp add: atLineStart_def)
  qed
  have d: "drop (length before) s = ?pre @ c # after"
    unfolding s by simp
  have "playlistRegex_matchAt s (length before) \<noteq> None"
    unfolding playlistRegex_matchAt_def d stripPrefix_append using ls c
    by (simp add: Let_def)
  moreover have "length before \<le> length s"
    unfolding s by simp
  ultimately show ?thesis by blast
qed

lemma search_finds:
  "playlistRegex_matchAt s p = Some r \<Longrightarrow> i \<le> p \<Longrightarrow> p \<le> length s \<Longrightarrow>
   playlistRegex_search s i \<noteq> None"
proof (induction s i rule: playlistRegex_search.induct)
  case (1 s i)
  from "1.prems" have le: "\<not> length s < i" by simp
  show ?case
  proof (cases "playlistRegex_matchAt s i")
    case None
    with "1.prems" have "i \<noteq> p" by auto
    with "1.prems" have "Suc i \<le> p" by simp
    from "1.IH"[OF le None "1.prems"(1) this "1.prems"(3)] le None show ?thesis
      by (subst playlistRegex_search.simps) simp
  next
    case (Some a)
    with le show ?thesis by (subst playlistRegex_search.simps) simp
  qed
qed

lemma shape_iff_fresh_match:
  "playlistUrlShape s \<longleftrightarrow> fst (playlistRegex_exec 0 s) \<noteq> None"
proof
  assume "playlistUrlShape s"
  then obtain p r where "p \<le> length s" "playlistRegex_matchAt s p = Some r"
    using shape_matchAt by blast
  then have "playlistRegex_search s 0 \<noteq> None"
    using search_finds[of s p r 0] by simp
  then show "fst (playlistRegex_exec 0 s) \<noteq> None"
    by (auto simp: playlistRegex_exec_def split: option.splits)
next
  assume "fst (playlistRegex_exec 0 s) \<noteq> None"
  then have "playlistRegex_search s 0 \<noteq> None"
    by (auto simp: playlistRegex_exec_def split: option.splits)
  then show "playlistUrlShape s"
    by (rule contrapos_np) (rule search_None)
qed

text \<open>
  Claim C8. When no line of the URL starts like a playlist URL, the operation ends at
  once: no request, no error, and the state as before (with \<^verbatim>\<open>lastIndex\<close> of the
  pattern at 0), so the displayed list is unchanged.
\<close>

theorem getPlaylist_no_match:
  assumes "\<not> playlistUrlShape (url st)"
  shows "\<exists>out. getPlaylist api st = Some out \<and> requests out = [] \<and> rejected out = None \<and>
           state out = st\<lparr>playlistRegex_lastIndex := 0\<rparr> \<and>
           playlistItems (state out) = playlistItems st"
  using search_None[OF assms]
  by (simp add: getPlaylist_def playlistRegex_exec_def)

text \<open>The link to an album is no playlist URL: nothing is asked of the API.\<close>

theorem getPlaylist_no_match_witness:
  "\<exists>out. getPlaylist emptyPlaylistApi
            (setUrl initialState (lit ''https://open.spotify.com/album/abc'')) = Some out \<and>
         requests out = [] \<and> rejected out = None \<and> playlistItems (state out) = None"
proof -
  let ?u = "lit ''https://open.spotify.com/album/abc''"
  have "playlistRegex_search ?u 0 = None"
    by code_simp
  then have "\<not> playlistUrlShape (url (setUrl initialState ?u))"
    by (simp add: shape_iff_fresh_match playlistRegex_exec_def setUrl_def)
  from getPlaylist_no_match[OF this, of emptyPlaylistApi] show ?thesis
    by (auto simp: setUrl_def initialState_def)
qed

lemma fetchPages_emptyPlaylistApi:
  "fetchPages emptyPlaylistApi playlist [] 0 [] = Some (Inr [], [pageRequest playlist 0])"
  by (subst fetchPages.simps) (simp add: emptyPlaylistApi_def)

lemma search_after_single_line:
  "list_all (\<lambda>c. \<not> isLineTerminator c) s \<Longrightarrow> 0 < i \<Longrightarrow> playlistRegex_search s i = None"
proof (induction s i rule: playlistRegex_search.induct)
  case (1 s i)
  show ?case
  proof (cases "length s < i")
    case True
    then show ?thesis by (subst playlistRegex_search.simps) simp
  next
    case False
    with "1.prems" have "i - 1 < length s" by simp
    with "1.prems"(1) have "\<not> isLineTerminator (s ! (i - 1))"
      by (simp add: list_all_length)
    with "1.prems"(2) have m: "playlistRegex_matchAt s i = None"
      by (simp add: playlistRegex_matchAt_def atLineStart_def)
    from "1.IH"[OF False m "1.prems"(1)] False m show ?thesis
      by (subst playlistRegex_search.simps) simp
  qed
qed

lemma second_exec_misses:
  assumes "list_all (\<lambda>c. \<not> isLineTerminator c) s"
    and "playlistRegex_exec 0 s = (Some ident, e)"
  shows "e = length s \<and> 0 < e \<and> playlistRegex_exec e s = (None, 0)"
proof -
  from assms(2) have f: "playlistRegex_search s 0 = Some (ident, e)"
    by (auto simp: playlistRegex_exec_def split: option.splits)
  have "playlistRegex_search s (Suc 0) = None"
    using search_after_single_line[OF assms(1)] by simp
  with f have m: "playlistRegex_matchAt s 0 = Some (ident, e)"
    by (subst (asm) playlistRegex_search.simps) (auto split: option.splits)
  then obtain s1 where s1: "stripPrefix (lit ''https://open.spotify.com/playlist/'') s = Some s1"
    by (auto simp: playlistRegex_matchAt_def split: if_splits option.splits)
  let ?rest = "dropWhile idChar s1"
  from m s1 have e: "e = length s - length ?rest + length (takeWhile (\<lambda>c. \<not> isLineTerminator c) ?rest)"
    by (auto simp: playlistRegex_matchAt_def Let_def split: if_splits)
  have s: "s = lit ''https://open.spotify.com/playlist/'' @ s1"
    by (rule stripPrefix_SomeD[OF s1])
  have "set ?rest \<subseteq> set s"
    by (subst s) (auto dest: set_dropWhileD)
  with assms(1) have tk: "takeWhile (\<lambda>c. \<not> isLineTerminator c) ?rest = ?rest"
    by (auto simp: list_all_iff)
  have le: "length ?rest \<le> length s"
    by (subst s) (simp add: length_dropWhile_le le_SucI trans_le_add2)
  have "e = length s - length ?rest + length ?rest"
    using e unfolding tk .
  with le have el: "e = length s"
    by linarith
  have "0 < length s"
    by (subst s) (simp add: lit_def)
  with el search_after_single_line[OF assms(1), of e] show ?thesis
    by (simp add: playlistRegex_exec_def)
qed

text \<open>
  Claim C9 asks that the decision to fetch depends on the URL alone. The pattern
  carries the \<^verbatim>\<open>g\<close> flag, so it depends on \<^verbatim>\<open>lastIndex\<close> too: after a match on a
  URL of one line, \<^verbatim>\<open>lastIndex\<close> is its length and the next search misses
  (\<open>second_exec_misses\<close>). On the URL below the first call extracts \<^verbatim>\<open>abc\<close> and issues
  a request; the second call, on the same URL, finds no match and issues none.
\<close>

theorem getPlaylist_second_call_misses:
  "playlistRegex_exec 0 (lit ''https://open.spotify.com/playlist/abc'') = (Some (lit ''abc''), 37) \<and>
   playlistRegex_exec 37 (lit ''https://open.spotify.com/playlist/abc'') = (None, 0) \<and>
   (\<exists>first second.
      getPlaylist emptyPlaylistApi
        (setUrl initialState (lit ''https://open.spotify.com/playlist/abc'')) = Some first \<and>
      requests first = [pageRequest (lit ''abc'') 0] \<and>
      playlistItems (state first) = Some [] \<and>
      url (state first) = lit ''https://open.spotify.com/playlist/abc'' \<and>
      getPlaylist emptyPlaylistApi (state first) = Some second \<and>
      requests second = [] \<and>
      state second = (state first)\<lparr>playlistRegex_lastIndex := 0\<rparr>)"
proof -
  let ?u = "lit ''https://open.spotify.com/playlist/abc''"
  have 1: "playlistRegex_exec 0 ?u = (Some (lit ''abc''), 37)"
    by code_simp
  have 2: "playlistRegex_exec 37 ?u = (None, 0)"
    by code_simp
  let ?first = "\<lparr>state = (setUrl initialState ?u)
                   \<lparr>playlistRegex_lastIndex := 37, playlistItems := Some []\<rparr>,
                 requests = [pageRequest (lit ''abc'') 0], rejected = None\<rparr>"
  have 3: "getPlaylist emptyPlaylistApi (setUrl initialState ?u) = Some ?first"
    by (simp add: getPlaylist_def setUrl_def initialState_def 1 fetchPages_emptyPlaylistApi
        buildOverrides_def applyOverrides_def)
  have 4: "getPlaylist emptyPlaylistApi (state ?first)
             = Some \<lparr>state = (state ?first)\<lparr>playlistRegex_lastIndex := 0\<rparr>,
                     requests = [], rejected = None\<rparr>"
    by (simp add: getPlaylist_def setUrl_def initialState_def 2)
  show ?thesis
    using 1 2 3 4 by (simp add: setUrl_def initialState_def)
qed

subsection \<open>The pages of a playlist\<close>

lemma length_offsetsFrom: "length (offsetsFrom offset pages) = length pages"
  by (induction pages arbitrary: offset) simp_all

lemma offsetsFrom_0: "pages \<noteq> [] \<Longrightarrow> offsetsFrom offset pages ! 0 = offset"
  by (cases pages) simp_all

lemma offsetsFrom_Suc:
  "Suc i < length pages \<Longrightarrow>
   offsetsFrom offset pages ! Suc i = offsetsFrom offset pages ! i + page_limit (pages ! i)"
proof (induction pages arbitrary: offset i)
  case Nil
  then show ?case by simp
next
  case (Cons p ps)
  show ?case
  proof (cases i)
    case 0
    with Cons.prems show ?thesis
      by (cases ps) simp_all
  next
    case (Suc j)
    with Cons.prems have "Suc j < length ps" by simp
    from Cons.IH[OF this, of "offset + page_limit p"] Suc show ?thesis
      by simp
  qed
qed

lemma fetchPages_requiresPages:
  "requiresPages api playlist offset k \<Longrightarrow>
   \<exists>pages. length pages = k \<and>
     fetchPages api playlist items offset issued =
       Some (Inr (items @ concat (map page_items pages)),
             issued @ map (pageRequest playlist) (offsetsFrom offset pages)) \<and>
     (\<forall>i<k. api (pageRequest playlist (offsetsFrom offset pages ! i)) = Inr (pages ! i)) \<and>
     (\<forall>i<k. (page_next (pages ! i) = None) = (Suc i = k))"
proof (induction k arbitrary: offset items issued)
  case 0
  then show ?case by simp
next
  case (Suc k)
  from Suc.prems obtain result where r: "api (pageRequest playlist offset) = Inr result"
    by (auto split: sum.splits)
  show ?case
  proof (cases "page_next result = None")
    case True
    with Suc.prems r have k: "k = 0" by simp
    have "fetchPages api playlist items offset issued =
            Some (Inr (items @ page_items result), issued @ [pageRequest playlist offset])"
      by (subst fetchPages.simps) (simp add: r True)
    with r True k show ?thesis
      by (intro exI[of _ "[result]"]) simp
  next
    case False
    with Suc.prems r have "requiresPages api playlist (offset + page_limit result) k"
      by simp
    from Suc.IH[OF this, of "items @ page_items result" "issued @ [pageRequest playlist offset]"]
    obtain pages where l: "length pages = k"
      and f: "fetchPages api playlist (items @ page_items result) (offset + page_limit result)
                (issued @ [pageRequest playlist offset]) =
              Some (Inr ((items @ page_items result) @ concat (map page_items pages)),
                    (issued @ [pageRequest playlist offset]) @
                      map (pageRequest playlist) (offsetsFrom (offset + page_limit result) pages))"
      and a: "\<forall>i<k. api (pageRequest playlist (offsetsFrom (offset + page_limit result) pages ! i))
                 = Inr (pages ! i)"
      and n: "\<forall>i<k. (page_next (pages ! i) = None) = (Suc i = k)"
      by blast
    have "fetchPages api playlist items offset issued =
            fetchPages api playlist (items @ page_items result) (offset + page_limit result)
              (issued @ [pageRequest playlist offset])"
      by (subst fetchPages.simps) (simp add: r False)
    with f have f': "fetchPages api playlist items offset issued =
        Some (Inr (items @ concat (map page_items (result # pages))),
              issued @ map (pageRequest playlist) (offsetsFrom offset (result # pages)))"
      by simp
    have a': "\<forall>i<Suc k. api (pageRequest playlist (offsetsFrom offset (result # pages) ! i))
                 = Inr ((result # pages) ! i)"
      using a r by (auto simp: less_Suc_eq_0_disj)
    have n': "\<forall>i<Suc k. (page_next ((result # pages) ! i) = None) = (Suc i = Suc k)"
    proof (intro allI impI)
      fix i assume "i < Suc k"
      show "(page_next ((result # pages) ! i) = None) = (Suc i = Suc k)"
      proof (cases i)
        case 0
        have "k \<noteq> 0"
          using \<open>requiresPages api playlist (offset + page_limit result) k\<close> by (cases k) auto
        with 0 False show ?thesis by simp
      next
        case (Suc j)
        with \<open>i < Suc k\<close> n show ?thesis by simp
      qed
    qed
    from l f' a' n' show ?thesis
      by (intro exI[of _ "result # pages"]) simp
  qed
qed

lemma list_of_three: "length xs = 3 \<Longrightarrow> xs = [xs ! 0, xs ! Suc 0, xs ! 2]"
  by (cases xs; cases "tl xs"; cases "tl (tl xs)") auto

lemma applyOverrides_empty: "applyOverrides (buildOverrides []) items = items"
proof -
  have "applyOverride [] item = item" for item
    by (simp add: applyOverride_def getProperty_def)
  then have "map (applyOverride []) items = items"
    by (induction items) simp_all
  then show ?thesis
    by (simp add: applyOverrides_def buildOverrides_def)
qed

lemma paginated_requiresPages:
  "offset \<le> length entries \<Longrightarrow>
   requiresPages (paginated entries) playlist offset
     (max 1 ((length entries - offset + 49) div 50))"
proof (induction "length entries - offset" arbitrary: offset rule: less_induct)
  case less
  let ?n = "length entries"
  show ?case
  proof (cases "offset + 50 < ?n")
    case False
    with less.prems have "(?n - offset + 49) div 50 \<le> 1"
      by arith
    then have m: "max 1 ((?n - offset + 49) div 50) = Suc 0"
      by (simp add: max_def)
    have "requiresPages (paginated entries) playlist offset (Suc 0)"
      using False by (simp add: paginated_def pageRequest_def)
    then show ?thesis
      unfolding m .
  next
    case True
    then obtain d where n: "?n = offset + 50 + Suc d"
      by (metis less_iff_Suc_add add_Suc_right)
    have d1: "?n - offset + 49 = (d + 50) + 50" unfolding n by simp
    have d2: "?n - (offset + 50) + 49 = d + 50" unfolding n by simp
    have d3: "(d + 50 + 50) div 50 = Suc (Suc (d div 50))" by simp
    have d4: "(d + 50) div 50 = Suc (d div 50)" by simp
    have k: "max 1 ((?n - offset + 49) div 50)
                    = Suc (max 1 ((?n - (offset + 50) + 49) div 50))"
      unfolding d1 d2 d3 d4 by simp
    from True have "requiresPages (paginated entries) playlist (offset + 50)
                      (max 1 ((?n - (offset + 50) + 49) div 50))"
      by (intro less.hyps) simp_all
    with True show ?thesis
      unfolding k by (simp add: paginated_def pageRequest_def)
  qed
qed

text \<open>
  Claim C3. When the URL matches and the playlist takes \<open>k\<close> pages, the operation
  returns after exactly \<open>k\<close> requests, each for 50 entries: the first at offset 0, every
  later one at the offset of the one before plus the limit that its page reported; only
  the last page names no next page. The entries of the pages, in the order of the pages,
  are what the merge receives and what is displayed.
\<close>

theorem getPlaylist_pagination:
  assumes "playlistRegex_exec (playlistRegex_lastIndex st) (url st) = (Some playlist, lastIndex)"
    and "requiresPages api playlist 0 k"
  shows
    "\<exists>out pages.
       getPlaylist api st = Some out \<and> rejected out = None \<and>
       length (requests out) = k \<and> length pages = k \<and>
       (\<forall>i<k. requests out ! i = pageRequest playlist (req_offset (requests out ! i)) \<and>
              api (requests out ! i) = Inr (pages ! i)) \<and>
       req_offset (requests out ! 0) = 0 \<and>
       (\<forall>i. Suc i < k \<longrightarrow>
          req_offset (requests out ! Suc i)
            = req_offset (requests out ! i) + page_limit (pages ! i)) \<and>
       (\<forall>i<k. (page_next (pages ! i) = None) = (Suc i = k)) \<and>
       playlistItems (state out) =
         Some (applyOverrides
                 (buildOverrides (case overrideJsonRef st of None \<Rightarrow> [] | Some v \<Rightarrow> v))
                 (concat (map page_items pages)))"
proof -
  from fetchPages_requiresPages[OF assms(2), of "[]" "[]"]
  obtain pages where l: "length pages = k"
    and f: "fetchPages api playlist [] 0 [] =
              Some (Inr (concat (map page_items pages)),
                    map (pageRequest playlist) (offsetsFrom 0 pages))"
    and a: "\<forall>i<k. api (pageRequest playlist (offsetsFrom 0 pages ! i)) = Inr (pages ! i)"
    and n: "\<forall>i<k. (page_next (pages ! i) = None) = (Suc i = k)"
    by auto
  let ?reqs = "map (pageRequest playlist) (offsetsFrom 0 pages)"
  let ?out = "\<lparr>state = st\<lparr>playlistRegex_lastIndex := lastIndex,
                   playlistItems := Some (applyOverrides
                     (buildOverrides (case overrideJsonRef st of None \<Rightarrow> [] | Some v \<Rightarrow> v))
                     (concat (map page_items pages)))\<rparr>,
               requests = ?reqs, rejected = None\<rparr>"
  have g: "getPlaylist api st = Some ?out"
    by (simp add: getPlaylist_def assms(1) f Let_def)
  from assms(2) have k: "0 < k" by (cases k) simp_all
  with l have ne: "pages \<noteq> []" by auto
  have nth: "?reqs ! i = pageRequest playlist (offsetsFrom 0 pages ! i)" if "i < k" for i
    using that l by (simp add: length_offsetsFrom)
  have off: "req_offset (?reqs ! i) = offsetsFrom 0 pages ! i" if "i < k" for i
    using nth[OF that] by (simp add: pageRequest_def)
  have 1: "\<forall>i<k. ?reqs ! i = pageRequest playlist (req_offset (?reqs ! i)) \<and>
              api (?reqs ! i) = Inr (pages ! i)"
    using a nth off by simp
  have 2: "req_offset (?reqs ! 0) = 0"
    using off[OF k] offsetsFrom_0[OF ne] by simp
  have 3: "\<forall>i. Suc i < k \<longrightarrow>
          req_offset (?reqs ! Suc i) = req_offset (?reqs ! i) + page_limit (pages ! i)"
  proof (intro allI impI)
    fix i assume s: "Suc i < k"
    then have "i < k" by simp
    from off[OF s] off[OF this] offsetsFrom_Suc[of i pages 0] s l
    show "req_offset (?reqs ! Suc i) = req_offset (?reqs ! i) + page_limit (pages ! i)"
      by simp
  qed
  have 4: "length ?reqs = k"
    using l by (simp add: length_offsetsFrom)
  show ?thesis
    apply (rule exI[of _ ?out])
    apply (rule exI[of _ pages])
    using g 1 2 3 4 l n by simp
qed

text \<open>
  A playlist of 120 entries behind an API that pages as documented: three requests, at
  the offsets 0, 50 and 100, and the 120 entries displayed.
\<close>

theorem getPlaylist_pagination_witness:
  "\<exists>out. getPlaylist (paginated (replicate 120 exampleTrack))
            (setUrl initialState (lit ''https://open.spotify.com/playlist/abc'')) = Some out \<and>
         rejected out = None \<and>
         map req_offset (requests out) = [0, 50, 100] \<and>
         playlistItems (state out) = Some (replicate 120 exampleTrack)"
proof -
  let ?api = "paginated (replicate 120 exampleTrack)"
  let ?u = "lit ''https://open.spotify.com/playlist/abc''"
  let ?st = "setUrl initialState ?u"
  have "playlistRegex_exec 0 ?u = (Some (lit ''abc''), 37)"
    by code_simp
  then have e: "playlistRegex_exec (playlistRegex_lastIndex ?st) (url ?st) = (Some (lit ''abc''), 37)"
    by (simp add: setUrl_def initialState_def)
  have r: "requiresPages ?api (lit ''abc'') 0 3"
    by (simp add: eval_nat_numeral paginated_def pageRequest_def)
  from getPlaylist_pagination[OF e r]
  obtain out pages where g: "getPlaylist ?api ?st = Some out" and rej: "rejected out = None"
    and lr: "length (requests out) = 3" and lp: "length pages = 3"
    and a: "\<And>i. i < 3 \<Longrightarrow> requests out ! i = pageRequest (lit ''abc'') (req_offset (requests out ! i))"
    and p: "\<And>i. i < 3 \<Longrightarrow> ?api (requests out ! i) = Inr (pages ! i)"
    and o0: "req_offset (requests out ! 0) = 0"
    and os: "\<And>i. Suc i < 3 \<Longrightarrow> req_offset (requests out ! Suc i)
                 = req_offset (requests out ! i) + page_limit (pages ! i)"
    and items: "playlistItems (state out) =
         Some (applyOverrides
                 (buildOverrides (case overrideJsonRef ?st of None \<Rightarrow> [] | Some v \<Rightarrow> v))
                 (concat (map page_items pages)))"
    by blast
  have r0: "requests out ! 0 = pageRequest (lit ''abc'') 0"
    using a[of 0] o0 by simp
  have p0: "pages ! 0 = \<lparr>page_offset = 0, page_limit = 50, page_next = Some (lit ''next''),
                          page_items = replicate 50 exampleTrack\<rparr>"
    using p[of 0] r0 by (simp add: paginated_def pageRequest_def)
  have "req_offset (requests out ! Suc 0) = req_offset (requests out ! 0) + page_limit (pages ! 0)"
    by (rule os) simp
  then have o1: "req_offset (requests out ! Suc 0) = 50"
    by (simp add: o0 p0)
  have r1: "requests out ! Suc 0 = pageRequest (lit ''abc'') 50"
    using a[of "Suc 0"] o1 by simp
  have p1: "pages ! Suc 0 = \<lparr>page_offset = 50, page_limit = 50, page_next = Some (lit ''next''),
                          page_items = replicate 50 exampleTrack\<rparr>"
    using p[of "Suc 0"] r1 by (simp add: paginated_def pageRequest_def)
  have "req_offset (requests out ! Suc (Suc 0)) = req_offset (requests out ! Suc 0) + page_limit (pages ! Suc 0)"
    by (rule os) simp
  then have o2: "req_offset (requests out ! 2) = 100"
    by (simp add: o1 p1 numeral_2_eq_2)
  have r2: "requests out ! 2 = pageRequest (lit ''abc'') 100"
    using a[of 2] o2 by simp
  have p2: "pages ! 2 = \<lparr>page_offset = 100, page_limit = 50, page_next = None,
                          page_items = replicate 20 exampleTrack\<rparr>"
    using p[of 2] r2 by (simp add: paginated_def pageRequest_def)
  have offs: "map req_offset (requests out) = [0, 50, 100]"
    by (subst list_of_three[OF lr]) (simp add: o0 o1 o2 del: One_nat_def)
  have "concat (map page_items pages) = replicate 50 exampleTrack @ replicate 50 exampleTrack
          @ replicate 20 exampleTrack"
    by (subst list_of_three[OF lp]) (simp add: p0 p1 p2 del: One_nat_def)
  also have "\<dots> = replicate 120 exampleTrack"
    by (simp add: replicate_add[symmetric])
  finally have "playlistItems (state out) = Some (replicate 120 exampleTrack)"
    using items by (simp add: setUrl_def initialState_def applyOverrides_empty)
  with g rej offs show ?thesis
    by (intro exI[of _ out] conjI)
qed

subsection \<open>Chunks\<close>

lemma arrayChunks_chunks: "0 < k \<Longrightarrow> arrayChunks xs k = Inr (chunks xs k)"
  by (simp add: arrayChunks_def chunks_def slice_def comp_def)

lemma length_chunks: "length (chunks xs k) = (length xs + k - 1) div k"
  by (simp add: chunks_def)

lemma concat_chunks_upto:
  "concat (map (\<lambda>i. take k (drop (i * k) xs)) [0 ..< m]) = take (m * k) xs"
proof (induction m)
  case 0
  then show ?case by simp
next
  case (Suc m)
  have "take (m * k + k) xs = take (m * k) xs @ take k (drop (m * k) xs)"
    by (rule take_add)
  with Suc show ?case
    by (simp add: add.commute)
qed

lemma ceiling_covers:
  fixes n k :: nat
  assumes "0 < k"
  shows "n \<le> (n + k - 1) div k * k"
proof -
  have "(n + k - 1) div k * k + (n + k - 1) mod k = n + k - 1"
    by (rule div_mult_mod_eq)
  moreover have "(n + k - 1) mod k < k"
    using assms by simp
  ultimately show ?thesis
    by linarith
qed

lemma concat_chunks: "0 < k \<Longrightarrow> concat (chunks xs k) = xs"
  unfolding chunks_def concat_chunks_upto
  using ceiling_covers[of k "length xs"] by simp

lemma chunk_start:
  fixes n k i :: nat
  assumes "0 < k" and "i < (n + k - 1) div k"
  shows "i * k < n"
proof -
  from assms(2) have "Suc i \<le> (n + k - 1) div k" by simp
  then have "Suc i * k \<le> n + k - 1"
    using assms(1) by (simp add: less_eq_div_iff_mult_less_eq)
  then have "i * k + k \<le> n + k - 1" by (simp add: add.commute)
  with assms(1) show ?thesis by linarith
qed

lemma chunk_full:
  fixes n k i :: nat
  assumes "0 < k" and "Suc i < (n + k - 1) div k"
  shows "i * k + k \<le> n"
proof -
  from chunk_start[OF assms] have "k + i * k < n" by simp
  then show ?thesis by simp
qed

lemma nth_chunks:
  "i < length (chunks xs k) \<Longrightarrow> chunks xs k ! i = take k (drop (i * k) xs)"
  by (simp add: chunks_def)

lemma chunks_sizes:
  assumes "0 < k"
  shows "\<forall>i<length (chunks xs k).
           chunks xs k ! i \<noteq> [] \<and> length (chunks xs k ! i) \<le> k \<and>
           (Suc i < length (chunks xs k) \<longrightarrow> length (chunks xs k ! i) = k)"
proof (intro allI impI conjI)
  fix i assume i: "i < length (chunks xs k)"
  then have s: "i * k < length xs"
    using chunk_start[OF assms, of i "length xs"] by (simp add: length_chunks)
  with assms show "chunks xs k ! i \<noteq> []"
    by (simp add: nth_chunks[OF i])
  show "length (chunks xs k ! i) \<le> k"
    by (simp add: nth_chunks[OF i])
  assume "Suc i < length (chunks xs k)"
  then have "i * k + k \<le> length xs"
    using chunk_full[OF assms, of i "length xs"] by (simp add: length_chunks)
  then show "length (chunks xs k ! i) = k"
    by (simp add: nth_chunks[OF i])
qed

subsection \<open>The pages\<close>

lemma mapThrowing_Inr: "(\<And>x. x \<in> set xs \<Longrightarrow> f x = Inr (g x)) \<Longrightarrow> mapThrowing f xs = Inr (map g xs)"
  by (induction xs) simp_all

lemma pagePair_Inr:
  "pagePair dayjs_YYYY name' codeType' pageChunks =
     Inr [\<lparr>page_side = FrontSide,
           page_rows = map (\<lambda>rowChunk. \<lparr>direction = FlexRow,
                        cards = map (frontCard dayjs_YYYY name') rowChunk\<rparr>) (chunks pageChunks 3)\<rparr>,
          \<lparr>page_side = BackSide,
           page_rows = map (\<lambda>rowChunk. \<lparr>direction = FlexRowReverse,
                        cards = map (backCard codeType') rowChunk\<rparr>) (chunks pageChunks 3)\<rparr>]"
  by (simp add: pagePair_def arrayChunks_chunks)

lemma document_Inr:
  "document dayjs_YYYY name' codeType' items =
     Inr (concat (map (\<lambda>pageChunks.
       [\<lparr>page_side = FrontSide,
         page_rows = map (\<lambda>rowChunk. \<lparr>direction = FlexRow,
                      cards = map (frontCard dayjs_YYYY name') rowChunk\<rparr>) (chunks pageChunks 3)\<rparr>,
        \<lparr>page_side = BackSide,
         page_rows = map (\<lambda>rowChunk. \<lparr>direction = FlexRowReverse,
                      cards = map (backCard codeType') rowChunk\<rparr>) (chunks pageChunks 3)\<rparr>])
       (chunks items 12)))"
  by (simp add: document_def arrayChunks_chunks mapThrowing_Inr[OF pagePair_Inr])

lemma length_concat_pairs: "length (concat (map (\<lambda>x. [f x, g x]) xs)) = 2 * length xs"
  by (induction xs) simp_all

lemma nth_concat_pairs:
  "i < length xs \<Longrightarrow>
   concat (map (\<lambda>x. [f x, g x]) xs) ! (2 * i) = f (xs ! i) \<and>
   concat (map (\<lambda>x. [f x, g x]) xs) ! (2 * i + 1) = g (xs ! i)"
proof (induction xs arbitrary: i)
  case Nil
  then show ?case by simp
next
  case (Cons x xs)
  show ?case
  proof (cases i)
    case 0
    then show ?thesis by simp
  next
    case (Suc j)
    with Cons.prems have "j < length xs" by simp
    from Cons.IH[OF this] Suc show ?thesis by simp
  qed
qed

lemma cardKey_frontCard: "cardKey (frontCard dayjs_YYYY name' item) = track_id (track item)"
  by (simp add: cardKey_def frontCard_def)

lemma cardKey_backCard: "cardKey (backCard codeType' item) = track_id (track item)"
  by (simp add: cardKey_def backCard_def)

lemma pageCards_rows:
  "pageCards \<lparr>page_side = sd,
              page_rows = map (\<lambda>rowChunk. \<lparr>direction = d, cards = map f rowChunk\<rparr>) (chunks g 3)\<rparr>
     = map f g"
proof -
  have "concat (map (map f) (chunks g 3)) = map f (concat (chunks g 3))"
    by (simp add: map_concat)
  then show ?thesis
    by (simp add: pageCards_def comp_def concat_chunks)
qed

text \<open>
  Claim C5. The entries are cut into \<open>ceil(n / 12)\<close> groups of at most 12, in their
  order, all but the last of 12. Each group gives a front page and then a back page;
  both hold the cards of exactly the entries of the group, in rows of at most 3, and row
  for row the back page shows, from left to right, the cards of the front page's row
  from right to left.
\<close>

theorem document_layout:
  "\<exists>groups pages.
     arrayChunks items 12 = Inr groups \<and>
     length groups = (length items + 11) div 12 \<and>
     concat groups = items \<and>
     (\<forall>i<length groups. groups ! i \<noteq> [] \<and> length (groups ! i) \<le> 12 \<and>
        (Suc i < length groups \<longrightarrow> length (groups ! i) = 12)) \<and>
     document dayjs_YYYY name' codeType' items = Inr pages \<and>
     length pages = 2 * length groups \<and>
     (\<forall>i<length groups.
        page_side (pages ! (2 * i)) = FrontSide \<and>
        page_side (pages ! (2 * i + 1)) = BackSide \<and>
        pageCards (pages ! (2 * i)) = map (frontCard dayjs_YYYY name') (groups ! i) \<and>
        pageCards (pages ! (2 * i + 1)) = map (backCard codeType') (groups ! i) \<and>
        length (page_rows (pages ! (2 * i))) = (length (groups ! i) + 2) div 3 \<and>
        length (page_rows (pages ! (2 * i + 1))) = length (page_rows (pages ! (2 * i))) \<and>
        (\<forall>j<length (page_rows (pages ! (2 * i))).
           length (cards (page_rows (pages ! (2 * i)) ! j)) \<le> 3 \<and>
           length (cards (page_rows (pages ! (2 * i + 1)) ! j))
             = length (cards (page_rows (pages ! (2 * i)) ! j)) \<and>
           leftToRight (page_rows (pages ! (2 * i + 1)) ! j)
             = rev (leftToRight (page_rows (pages ! (2 * i)) ! j))))"
proof -
  let ?frontPage = "\<lambda>pageChunks. \<lparr>page_side = FrontSide,
         page_rows = map (\<lambda>rowChunk. \<lparr>direction = FlexRow,
                      cards = map (frontCard dayjs_YYYY name') rowChunk\<rparr>) (chunks pageChunks 3)\<rparr>"
  let ?backPage = "\<lambda>pageChunks. \<lparr>page_side = BackSide,
         page_rows = map (\<lambda>rowChunk. \<lparr>direction = FlexRowReverse,
                      cards = map (backCard codeType') rowChunk\<rparr>) (chunks pageChunks 3)\<rparr>"
  let ?groups = "chunks items 12"
  let ?pages = "concat (map (\<lambda>g. [?frontPage g, ?backPage g]) ?groups)"
  have 1: "arrayChunks items 12 = Inr ?groups"
    by (simp add: arrayChunks_chunks)
  have 2: "length ?groups = (length items + 11) div 12"
    by (simp add: length_chunks)
  have 3: "concat ?groups = items"
    by (simp add: concat_chunks)
  have 4: "\<forall>i<length ?groups. ?groups ! i \<noteq> [] \<and> length (?groups ! i) \<le> 12 \<and>
        (Suc i < length ?groups \<longrightarrow> length (?groups ! i) = 12)"
    by (rule chunks_sizes) simp
  have 5: "document dayjs_YYYY name' codeType' items = Inr ?pages"
    by (rule document_Inr)
  have 6: "length ?pages = 2 * length ?groups"
    by (rule length_concat_pairs)
  have 7: "page_side (?pages ! (2 * i)) = FrontSide \<and>
        page_side (?pages ! (2 * i + 1)) = BackSide \<and>
        pageCards (?pages ! (2 * i)) = map (frontCard dayjs_YYYY name') (?groups ! i) \<and>
        pageCards (?pages ! (2 * i + 1)) = map (backCard codeType') (?groups ! i) \<and>
        length (page_rows (?pages ! (2 * i))) = (length (?groups ! i) + 2) div 3 \<and>
        length (page_rows (?pages ! (2 * i + 1))) = length (page_rows (?pages ! (2 * i))) \<and>
        (\<forall>j<length (page_rows (?pages ! (2 * i))).
           length (cards (page_rows (?pages ! (2 * i)) ! j)) \<le> 3 \<and>
           length (cards (page_rows (?pages ! (2 * i + 1)) ! j))
             = length (cards (page_rows (?pages ! (2 * i)) ! j)) \<and>
           leftToRight (page_rows (?pages ! (2 * i + 1)) ! j)
             = rev (leftToRight (page_rows (?pages ! (2 * i)) ! j)))"
    if i: "i < length ?groups" for i
  proof -
    let ?g = "?groups ! i"
    from nth_concat_pairs[OF i, of ?frontPage ?backPage]
    have f: "?pages ! (2 * i) = ?frontPage ?g" and b: "?pages ! (2 * i + 1) = ?backPage ?g"
      by simp_all
    have rows: "\<forall>j<length (chunks ?g 3).
           length (chunks ?g 3 ! j) \<le> 3 \<and>
           leftToRight \<lparr>direction = FlexRowReverse, cards = map (backCard codeType') (chunks ?g 3 ! j)\<rparr>
             = rev (leftToRight \<lparr>direction = FlexRow,
                      cards = map (frontCard dayjs_YYYY name') (chunks ?g 3 ! j)\<rparr>)"
      using chunks_sizes[of 3 ?g]
      by (simp add: leftToRight_def cardKey_frontCard cardKey_backCard comp_def)
    show ?thesis
      unfolding f b using rows
      by (simp add: pageCards_rows length_chunks)
  qed
  from 1 2 3 4 5 6 7 show ?thesis
    by blast
qed

text \<open>
  Twenty-five entries: groups of 12, 12 and 1, six pages, and on the last page, the
  back of the third group, one row with the one card of entry 24.
\<close>

theorem document_layout_witness:
  "\<exists>groups pages.
     arrayChunks (map numberedTrack [0 ..< 25]) 12 = Inr groups \<and>
     map length groups = [12, 12, 1] \<and>
     document (take 4) [] (lit ''qr'') (map numberedTrack [0 ..< 25]) = Inr pages \<and>
     length pages = 6 \<and>
     page_side (pages ! 5) = BackSide \<and>
     length (page_rows (pages ! 5)) = 1 \<and>
     map cardKey (pageCards (pages ! 5)) = [[24]]"
proof -
  let ?items = "map numberedTrack [0 ..< 25]"
  from document_layout[of ?items "take 4" "[]" "lit ''qr''"]
  obtain groups pages where a: "arrayChunks ?items 12 = Inr groups"
    and d: "document (take 4) [] (lit ''qr'') ?items = Inr pages"
    and l: "length pages = 2 * length groups"
    and p: "\<And>i. i < length groups \<Longrightarrow>
        page_side (pages ! (2 * i + 1)) = BackSide \<and>
        pageCards (pages ! (2 * i + 1)) = map (backCard (lit ''qr'')) (groups ! i) \<and>
        length (page_rows (pages ! (2 * i))) = (length (groups ! i) + 2) div 3 \<and>
        length (page_rows (pages ! (2 * i + 1))) = length (page_rows (pages ! (2 * i)))"
    by blast
  have "arrayChunks ?items 12 =
          Inr [map numberedTrack [0 ..< 12], map numberedTrack [12 ..< 24],
               map numberedTrack [24 ..< 25]]"
  proof -
    have u: "[0 ..< 3] = [0, 1, 2::nat]"
      by code_simp
    show ?thesis
      by (simp add: arrayChunks_chunks chunks_def u take_map drop_map)
  qed
  with a have g: "groups = [map numberedTrack [0 ..< 12], map numberedTrack [12 ..< 24],
               map numberedTrack [24 ..< 25]]"
    by simp
  have "(2::nat) < length groups"
    by (simp add: g)
  from p[OF this] have 5: "page_side (pages ! 5) = BackSide"
    and c: "pageCards (pages ! 5) = map (backCard (lit ''qr'')) (groups ! 2)"
    and r: "length (page_rows (pages ! 5)) = (length (groups ! 2) + 2) div 3"
    by simp_all
  have "[24 ..< 25] = [24::nat]"
    by code_simp
  then have g2: "groups ! 2 = [numberedTrack 24]"
    by (simp add: g)
  have k: "map cardKey (pageCards (pages ! 5)) = [[24]]"
    unfolding c g2 by (simp add: cardKey_backCard numberedTrack_def)
  have r': "length (page_rows (pages ! 5)) = 1"
    unfolding r g2 by simp
  have s: "map length groups = [12, 12, 1]"
    by (simp add: g)
  have n: "length pages = 6"
    using l by (simp add: g)
  from a s d n 5 r' k show ?thesis
    by (intro exI[of _ groups] exI[of _ pages] conjI)
qed

subsection \<open>The codes on the back\<close>

lemma back_pages_of_pairs:
  "(\<And>x. page_side (f x) = FrontSide) \<Longrightarrow> (\<And>x. page_side (g x) = BackSide) \<Longrightarrow>
   filter (\<lambda>p. page_side p = BackSide) (concat (map (\<lambda>x. [f x, g x]) xs)) = map g xs"
  by (induction xs) simp_all

text \<open>
  Claim C10. The cards of the back pages are, in the order of the entries, one card for
  each entry, with one image: when the code type is \<^verbatim>\<open>qr\<close>, the QR code of
  \<^verbatim>\<open>spotify:track:<id>\<close>, made locally at correction level H; otherwise the remote
  image at \<^verbatim>\<open>https://scannables.scdn.co/uri/plain/jpeg/FFFFFF/black/320/spotify:track:<id>\<close>.
\<close>

theorem back_cards_codes:
  "\<exists>pages.
     document dayjs_YYYY name' codeType' items = Inr pages \<and>
     concat (map pageCards (filter (\<lambda>p. page_side p = BackSide) pages)) =
       map (\<lambda>item.
              Back \<lparr>back_key = track_id (track item),
                    image = (if codeType' = lit ''qr''
                             then QRCode_toDataURL (lit ''spotify:track:'' @ track_id (track item))
                                    (lit ''H'')
                             else RemoteUrl
                               (lit ''https://scannables.scdn.co/uri/plain/jpeg/FFFFFF/black/320/spotify:track:''
                                  @ track_id (track item)))\<rparr>) items"
proof -
  have b: "backCard codeType' =
        (\<lambda>item.
              Back \<lparr>back_key = track_id (track item),
                    image = (if codeType' = lit ''qr''
                             then QRCode_toDataURL (lit ''spotify:track:'' @ track_id (track item))
                                    (lit ''H'')
                             else RemoteUrl
                               (lit ''https://scannables.scdn.co/uri/plain/jpeg/FFFFFF/black/320/spotify:track:''
                                  @ track_id (track item)))\<rparr>)"
    by (rule ext) (simp add: backCard_def generateSessionPDFQrCode_def)
  have "concat (map (map (backCard codeType')) (chunks items 12))
          = map (backCard codeType') (concat (chunks items 12))"
    by (simp add: map_concat)
  then have "concat (map (\<lambda>g. map (backCard codeType') g) (chunks items 12))
          = map (backCard codeType') items"
    by (simp add: concat_chunks)
  then show ?thesis
    unfolding document_Inr b[symmetric]
    by (simp add: back_pages_of_pairs pageCards_rows comp_def)
qed

text \<open>The example entry, once with the QR code and once with the other code type.\<close>

theorem back_cards_codes_witness:
  "(\<exists>pages. document (take 4) [] (lit ''qr'') [exampleTrack] = Inr pages \<and>
      concat (map pageCards (filter (\<lambda>p. page_side p = BackSide) pages)) =
        [Back \<lparr>back_key = lit ''ABC123'',
               image = QRCode_toDataURL (lit ''spotify:track:ABC123'') (lit ''H'')\<rparr>]) \<and>
   (\<exists>pages. document (take 4) [] (lit ''spotify'') [exampleTrack] = Inr pages \<and>
      concat (map pageCards (filter (\<lambda>p. page_side p = BackSide) pages)) =
        [Back \<lparr>back_key = lit ''ABC123'',
               image = RemoteUrl
                 (lit ''https://scannables.scdn.co/uri/plain/jpeg/FFFFFF/black/320/spotify:track:ABC123'')\<rparr>])"
proof (intro conjI)
  from back_cards_codes[of "take 4" "[]" "lit ''qr''" "[exampleTrack]"]
  show "\<exists>pages. document (take 4) [] (lit ''qr'') [exampleTrack] = Inr pages \<and>
      concat (map pageCards (filter (\<lambda>p. page_side p = BackSide) pages)) =
        [Back \<lparr>back_key = lit ''ABC123'',
               image = QRCode_toDataURL (lit ''spotify:track:ABC123'') (lit ''H'')\<rparr>]"
    by (simp add: exampleTrack_def lit_def)
next
  have ne: "lit ''spotify'' \<noteq> lit ''qr''"
    by (simp add: lit_def)
  from back_cards_codes[of "take 4" "[]" "lit ''spotify''" "[exampleTrack]"] ne
  show "\<exists>pages. document (take 4) [] (lit ''spotify'') [exampleTrack] = Inr pages \<and>
      concat (map pageCards (filter (\<lambda>p. page_side p = BackSide) pages)) =
        [Back \<lparr>back_key = lit ''ABC123'',
               image = RemoteUrl
                 (lit ''https://scannables.scdn.co/uri/plain/jpeg/FFFFFF/black/320/spotify:track:ABC123'')\<rparr>]"
    by (simp add: exampleTrack_def) (simp add: lit_def)
qed

end
